theory Spec2Isabelle
  imports Main
begin

section \<open>Time model\<close>

text \<open>
  The recurrence code (\<^verbatim>\<open>Recurrence\<close>, in \<^verbatim>\<open>src/src/freebusy.cpp\<close> from line 418 on)
  works on \<^verbatim>\<open>QDate\<close>, \<^verbatim>\<open>QTime\<close> and \<^verbatim>\<open>KDateTime\<close> values.

  Modelled from the spec: these classes belong to Qt and kdelibs and are not among the
  sources; they are modelled along the required interface of the specification
  (section 4.1). A date is its day number, a time of day is the number of seconds since
  midnight, and a \<^verbatim>\<open>KDateTime\<close> is a wall-clock reading (seconds since day 0, 00:00)
  together with its time specification and the date-only flag. Time specifications are
  UTC and fixed offsets from UTC (\<^verbatim>\<open>KDateTime::Spec::OffsetFromUTC\<close>); zones with daylight
  saving transitions are not modelled. Instants are compared by their absolute moment;
  a date-only value counts as the midnight that starts its day in its own time
  specification. This is a simplification: the specification (section 9) compares all-day
  dates by calendar date only, whatever the zone, which is not an order by one integer
  key. The two agree on date-only values of one time specification, and on a date-only
  value against a timed instant of another day in that specification.
\<close>

type_synonym QDate = int
type_synonym QTime = int

datatype Spec = UTC | OffsetFromUTC int

fun utcOffset :: "Spec \<Rightarrow> int" where
  "utcOffset UTC = 0"
| "utcOffset (OffsetFromUTC n) = n"

record KDateTime =
  wallSecs :: int
  timeSpec :: Spec
  isDateOnly :: bool

text \<open>\<^verbatim>\<open>QTime(h, m, s)\<close> and \<^verbatim>\<open>KDateTime(date, time, spec)\<close>.\<close>

definition mkQTime :: "int \<Rightarrow> int \<Rightarrow> int \<Rightarrow> QTime" where
  "mkQTime h m s = h * 3600 + m * 60 + s"

definition mkKDateTime :: "QDate \<Rightarrow> QTime \<Rightarrow> Spec \<Rightarrow> KDateTime" where
  "mkKDateTime qd qt sp = \<lparr>wallSecs = qd * 86400 + qt, timeSpec = sp, isDateOnly = False\<rparr>"

text \<open>The date-only constructor \<^verbatim>\<open>KDateTime(date, spec)\<close>.\<close>

definition mkDateOnly :: "QDate \<Rightarrow> Spec \<Rightarrow> KDateTime" where
  "mkDateOnly qd sp = \<lparr>wallSecs = qd * 86400, timeSpec = sp, isDateOnly = True\<rparr>"

text \<open>
  The default-constructed \<^verbatim>\<open>KDateTime()\<close> held by a fresh \<^verbatim>\<open>Recurrence\<close>. Functions that
  return \<^verbatim>\<open>KDateTime()\<close> for "no such time" return \<open>None\<close> in this model, and
  \<^verbatim>\<open>isValid()\<close> on their result is the test for \<open>Some\<close>. The record has no validity
  flag: as a stored start date/time the invalid value is represented by day 0, 00:00 UTC,
  so a fresh recurrence behaves in this model as one that starts then.
\<close>

definition nullKDateTime :: KDateTime where
  "nullKDateTime = \<lparr>wallSecs = 0, timeSpec = UTC, isDateOnly = False\<rparr>"

definition date :: "KDateTime \<Rightarrow> QDate" where
  "date k = wallSecs k div 86400"

definition time :: "KDateTime \<Rightarrow> QTime" where
  "time k = wallSecs k mod 86400"

text \<open>The absolute moment of a reading, in seconds of UTC.\<close>

definition toUtcSecs :: "KDateTime \<Rightarrow> int" where
  "toUtcSecs k = wallSecs k - utcOffset (timeSpec k)"

text \<open>
  \<^verbatim>\<open>toTimeSpec\<close> keeps the absolute moment and re-reads the clock in the other
  specification; a date-only value keeps its date and only takes the new specification.
  \<^verbatim>\<open>setTimeSpec\<close> and \<^verbatim>\<open>setDate\<close> replace one component and keep the others.
\<close>

definition toTimeSpec :: "KDateTime \<Rightarrow> Spec \<Rightarrow> KDateTime" where
  "toTimeSpec k sp =
     (if isDateOnly k then k\<lparr>timeSpec := sp\<rparr>
      else \<lparr>wallSecs = toUtcSecs k + utcOffset sp, timeSpec = sp, isDateOnly = False\<rparr>)"

definition setTimeSpec :: "KDateTime \<Rightarrow> Spec \<Rightarrow> KDateTime" where
  "setTimeSpec k sp = k\<lparr>timeSpec := sp\<rparr>"

definition setDate :: "KDateTime \<Rightarrow> QDate \<Rightarrow> KDateTime" where
  "setDate k qd = k\<lparr>wallSecs := qd * 86400 + time k\<rparr>"

text \<open>The comparison operators of \<^verbatim>\<open>KDateTime\<close> compare absolute moments.\<close>

definition kdt_lt :: "KDateTime \<Rightarrow> KDateTime \<Rightarrow> bool" where
  "kdt_lt a b = (toUtcSecs a < toUtcSecs b)"

definition kdt_eq :: "KDateTime \<Rightarrow> KDateTime \<Rightarrow> bool" where
  "kdt_eq a b = (toUtcSecs a = toUtcSecs b)"

section \<open>Sorted lists\<close>

text \<open>
  Modelled from the spec: \<^verbatim>\<open>SortableList\<close> (\<^verbatim>\<open>sortablelist.h\<close>), the list type of
  \<^verbatim>\<open>DateList\<close>, \<^verbatim>\<open>DateTimeList\<close> and \<^verbatim>\<open>TimeList\<close>, is not among the sources. Its
  operations are modelled from their use and from the specification's words for them
  ("sorted ascending and free of duplicates", "insert in sorted position", "upper-bound
  search"). Every operation takes the key by which the element type is compared:
  the identity for dates and times, \<open>toUtcSecs\<close> for \<^verbatim>\<open>KDateTime\<close>.
\<close>

text \<open>
  Modelled from the spec: \<^verbatim>\<open>containsSorted(value)\<close>, is there an element equal to the
  value.
\<close>

definition containsSorted :: "('a \<Rightarrow> int) \<Rightarrow> 'a \<Rightarrow> 'a list \<Rightarrow> bool" where
  "containsSorted key v xs = list_ex (\<lambda>x. key x = key v) xs"

text \<open>
  Modelled from the spec: \<^verbatim>\<open>insertSorted(value)\<close>, insert at the sorted position unless
  an equal element is there.
\<close>

fun insertSorted :: "('a \<Rightarrow> int) \<Rightarrow> 'a \<Rightarrow> 'a list \<Rightarrow> 'a list" where
  "insertSorted key v [] = [v]"
| "insertSorted key v (x # xs) =
     (if key v < key x then v # x # xs
      else if key v = key x then x # xs
      else x # insertSorted key v xs)"

text \<open>
  Modelled from the spec: \<^verbatim>\<open>sortUnique()\<close>, sort ascending, then erase every run of
  equal neighbours but its first.
\<close>

fun eraseRuns :: "('a \<Rightarrow> int) \<Rightarrow> 'a list \<Rightarrow> 'a list" where
  "eraseRuns key [] = []"
| "eraseRuns key [x] = [x]"
| "eraseRuns key (x # y # ys) =
     (if key x = key y then eraseRuns key (x # ys) else x # eraseRuns key (y # ys))"

definition sortUnique :: "('a \<Rightarrow> int) \<Rightarrow> 'a list \<Rightarrow> 'a list" where
  "sortUnique key xs = eraseRuns key (sort_key key xs)"

text \<open>
  Modelled from the spec: the searches return an index, or \<open>-1\<close>. \<^verbatim>\<open>findGT(value)\<close> is the first element greater
  than the value, \<^verbatim>\<open>findLT(value)\<close> the last element less than it, and
  \<^verbatim>\<open>findSorted(value, start)\<close> the first element equal to it at index \<open>start\<close> or later.
\<close>

fun findFirst :: "('a \<Rightarrow> bool) \<Rightarrow> 'a list \<Rightarrow> nat \<Rightarrow> int" where
  "findFirst P [] i = -1"
| "findFirst P (x # xs) i = (if P x then int i else findFirst P xs (Suc i))"

fun findLast :: "('a \<Rightarrow> bool) \<Rightarrow> 'a list \<Rightarrow> nat \<Rightarrow> int" where
  "findLast P [] i = -1"
| "findLast P (x # xs) i =
     (let j = findLast P xs (Suc i) in if 0 \<le> j then j else if P x then int i else -1)"

definition findGT :: "('a \<Rightarrow> int) \<Rightarrow> 'a \<Rightarrow> 'a list \<Rightarrow> int" where
  "findGT key v xs = findFirst (\<lambda>x. key v < key x) xs 0"

definition findLT :: "('a \<Rightarrow> int) \<Rightarrow> 'a \<Rightarrow> 'a list \<Rightarrow> int" where
  "findLT key v xs = findLast (\<lambda>x. key x < key v) xs 0"

definition findSorted :: "('a \<Rightarrow> int) \<Rightarrow> 'a \<Rightarrow> nat \<Rightarrow> 'a list \<Rightarrow> int" where
  "findSorted key v start xs =
     findFirst (\<lambda>x. key x = key v) (drop start xs) start"

text \<open>
  Modelled from the spec: \<^verbatim>\<open>removeAt(i)\<close> and \<^verbatim>\<open>removeSorted(value, start)\<close>, which
  returns the index it removed.
\<close>

definition removeAt :: "nat \<Rightarrow> 'a list \<Rightarrow> 'a list" where
  "removeAt i xs = take i xs @ drop (Suc i) xs"

definition removeSorted :: "('a \<Rightarrow> int) \<Rightarrow> 'a \<Rightarrow> nat \<Rightarrow> 'a list \<Rightarrow> 'a list \<times> int" where
  "removeSorted key v start xs =
     (let i = findSorted key v start xs
      in if 0 \<le> i then (removeAt (nat i) xs, i) else (xs, i))"

section \<open>Recurrence rules\<close>

text \<open>
  Modelled from the spec: \<^verbatim>\<open>RecurrenceRule\<close> (\<^verbatim>\<open>recurrencerule.cpp\<close>) is not among the
  sources. A rule is the record of the attributes that \<^verbatim>\<open>Recurrence\<close> reads and writes
  (specification, section 3): its start instant, its all-day flag, its frequency and its
  termination. \<open>rule_id\<close> stands for the address of the rule object, by which
  \<^verbatim>\<open>removeAll\<close> finds it, and \<open>rule_observed\<close> says that the recurrence is registered as
  an observer of the rule.
\<close>

datatype Termination = Never | Count int | Until KDateTime

record RecurrenceRule =
  rule_id :: nat
  rule_startInstant :: KDateTime
  rule_allDay :: bool
  rule_frequency :: int
  rule_termination :: Termination
  rule_observed :: bool

text \<open>
  Modelled from the spec: the setters of a rule that \<^verbatim>\<open>Recurrence\<close> calls. Each sets its
  attribute; \<^verbatim>\<open>setDuration\<close> sets a count from 1 on and no end otherwise.
\<close>

definition rule_setFloats :: "bool \<Rightarrow> RecurrenceRule \<Rightarrow> RecurrenceRule" where
  "rule_setFloats floats rule = rule\<lparr>rule_allDay := floats\<rparr>"

definition rule_setStartDt :: "KDateTime \<Rightarrow> RecurrenceRule \<Rightarrow> RecurrenceRule" where
  "rule_setStartDt start rule = rule\<lparr>rule_startInstant := start\<rparr>"

definition rule_setEndDt :: "KDateTime \<Rightarrow> RecurrenceRule \<Rightarrow> RecurrenceRule" where
  "rule_setEndDt dt rule = rule\<lparr>rule_termination := Until dt\<rparr>"

definition rule_setDuration :: "int \<Rightarrow> RecurrenceRule \<Rightarrow> RecurrenceRule" where
  "rule_setDuration n rule = rule\<lparr>rule_termination := (if 1 \<le> n then Count n else Never)\<rparr>"

definition rule_setFrequency :: "int \<Rightarrow> RecurrenceRule \<Rightarrow> RecurrenceRule" where
  "rule_setFrequency freq rule = rule\<lparr>rule_frequency := freq\<rparr>"

definition rule_addObserver :: "RecurrenceRule \<Rightarrow> RecurrenceRule" where
  "rule_addObserver rule = rule\<lparr>rule_observed := True\<rparr>"

text \<open>
  The expansion engine of a rule (what a rule answers to the queries) is a parameter of
  the model: \<^verbatim>\<open>Recurrence\<close> only calls it. \<open>rule_new\<close> is the rule that
  \<^verbatim>\<open>new RecurrenceRule()\<close> constructs.
\<close>

record RuleEngine =
  rule_recursAt :: "RecurrenceRule \<Rightarrow> KDateTime \<Rightarrow> bool"
  rule_recursOn :: "RecurrenceRule \<Rightarrow> QDate \<Rightarrow> Spec \<Rightarrow> bool"
  rule_recurTimesOn :: "RecurrenceRule \<Rightarrow> QDate \<Rightarrow> Spec \<Rightarrow> QTime list"
  rule_timesInInterval :: "RecurrenceRule \<Rightarrow> KDateTime \<Rightarrow> KDateTime \<Rightarrow> KDateTime list"
  rule_getNextDate :: "RecurrenceRule \<Rightarrow> KDateTime \<Rightarrow> KDateTime option"
  rule_getPreviousDate :: "RecurrenceRule \<Rightarrow> KDateTime \<Rightarrow> KDateTime option"
  rule_duration :: "RecurrenceRule \<Rightarrow> int"
  rule_durationTo :: "RecurrenceRule \<Rightarrow> KDateTime \<Rightarrow> int"
  rule_new :: RecurrenceRule

section \<open>The recurrence\<close>

text \<open>
  \<^verbatim>\<open>Recurrence::Private\<close>, field by field. Observers are pointers; \<open>0\<close> is the null
  pointer. \<open>notified\<close> is the trace of the \<^verbatim>\<open>recurrenceUpdated(this)\<close> calls made so far:
  the observer that received each call, in order.
\<close>

datatype RecurType =
  rNone | rMinutely | rHourly | rDaily | rWeekly | rMonthlyPos | rMonthlyDay
  | rYearlyMonth | rYearlyDay | rYearlyPos | rOther | rMax

record Recurrence =
  mExRules :: "RecurrenceRule list"
  mRRules :: "RecurrenceRule list"
  mRDateTimes :: "KDateTime list"
  mRDates :: "QDate list"
  mExDateTimes :: "KDateTime list"
  mExDates :: "QDate list"
  mStartDateTime :: KDateTime
  mObservers :: "nat list"
  mCachedType :: RecurType
  mFloating :: bool
  mRecurReadOnly :: bool
  notified :: "nat list"

text \<open>The constructor \<^verbatim>\<open>Recurrence()\<close>.\<close>

definition newRecurrence :: Recurrence where
  "newRecurrence =
     \<lparr>mExRules = [], mRRules = [], mRDateTimes = [], mRDates = [], mExDateTimes = [],
      mExDates = [], mStartDateTime = nullKDateTime, mObservers = [], mCachedType = rMax,
      mFloating = False, mRecurReadOnly = False, notified = []\<rparr>"



definition startDateTime :: "Recurrence \<Rightarrow> KDateTime" where
  "startDateTime r = mStartDateTime r"


definition floats :: "Recurrence \<Rightarrow> bool" where
  "floats r = mFloating r"

text \<open>\<^verbatim>\<open>updated()\<close>: reset the cached type and call every non-null observer.\<close>

fun callObservers :: "nat list \<Rightarrow> nat list \<Rightarrow> nat list" where
  "callObservers [] trace = trace"
| "callObservers (ob # obs) trace =
     (if ob \<noteq> 0 then callObservers obs (trace @ [ob]) else callObservers obs trace)"

definition updated :: "Recurrence \<Rightarrow> Recurrence" where
  "updated r = r\<lparr>mCachedType := rMax, notified := callObservers (mObservers r) (notified r)\<rparr>"

text \<open>
  \<^verbatim>\<open>recurrenceChanged(rule)\<close> calls \<^verbatim>\<open>updated()\<close>.

  Modelled from the spec: a rule that changes calls \<^verbatim>\<open>recurrenceChanged\<close> on its
  observers (specification, section 4.4). \<open>ruleNotifies\<close> is that call for one rule,
  made when the recurrence is registered with the rule.
\<close>

definition recurrenceChanged :: "RecurrenceRule \<Rightarrow> Recurrence \<Rightarrow> Recurrence" where
  "recurrenceChanged rule r = updated r"

definition ruleNotifies :: "RecurrenceRule \<Rightarrow> Recurrence \<Rightarrow> Recurrence" where
  "ruleNotifies rule r = (if rule_observed rule then recurrenceChanged rule r else r)"


subsection \<open>Mutators\<close>

text \<open>
  A loop that calls one setter on every rule of a list: each rule is replaced by the
  changed rule, and every rule that the recurrence observes reports the change.
\<close>

definition forRRules :: "(RecurrenceRule \<Rightarrow> RecurrenceRule) \<Rightarrow> Recurrence \<Rightarrow> Recurrence" where
  "forRRules f r = fold ruleNotifies (mRRules r) (r\<lparr>mRRules := map f (mRRules r)\<rparr>)"

definition forExRules :: "(RecurrenceRule \<Rightarrow> RecurrenceRule) \<Rightarrow> Recurrence \<Rightarrow> Recurrence" where
  "forExRules f r = fold ruleNotifies (mExRules r) (r\<lparr>mExRules := map f (mExRules r)\<rparr>)"

definition setFloats :: "bool \<Rightarrow> Recurrence \<Rightarrow> Recurrence" where
  "setFloats fl r =
     (if mRecurReadOnly r \<or> fl = mFloating r then r
      else updated (forExRules (rule_setFloats fl)
                     (forRRules (rule_setFloats fl) (r\<lparr>mFloating := fl\<rparr>))))"

text \<open>\<^verbatim>\<open>addRRule(rrule)\<close>; \<open>None\<close> is the null pointer.\<close>

definition addRRule :: "RecurrenceRule option \<Rightarrow> Recurrence \<Rightarrow> Recurrence" where
  "addRRule rrule r =
     (case rrule of
        None \<Rightarrow> r
      | Some rule \<Rightarrow>
          if mRecurReadOnly r then r
          else
            let r1 = ruleNotifies rule r;
                rule1 = rule_addObserver (rule_setFloats (mFloating r) rule)
            in updated (r1\<lparr>mRRules := mRRules r1 @ [rule1]\<rparr>))"

definition removeRRule :: "RecurrenceRule \<Rightarrow> Recurrence \<Rightarrow> Recurrence" where
  "removeRRule rrule r =
     (if mRecurReadOnly r then r
      else updated (r\<lparr>mRRules := filter (\<lambda>x. rule_id x \<noteq> rule_id rrule) (mRRules r)\<rparr>))"

definition addExRule :: "RecurrenceRule option \<Rightarrow> Recurrence \<Rightarrow> Recurrence" where
  "addExRule exrule r =
     (case exrule of
        None \<Rightarrow> r
      | Some rule \<Rightarrow>
          if mRecurReadOnly r then r
          else
            let r1 = ruleNotifies rule r;
                rule1 = rule_addObserver (rule_setFloats (mFloating r) rule)
            in updated (r1\<lparr>mExRules := mExRules r1 @ [rule1]\<rparr>))"

definition removeExRule :: "RecurrenceRule \<Rightarrow> Recurrence \<Rightarrow> Recurrence" where
  "removeExRule exrule r =
     (if mRecurReadOnly r then r
      else updated (r\<lparr>mExRules := filter (\<lambda>x. rule_id x \<noteq> rule_id exrule) (mExRules r)\<rparr>))"

text \<open>
  \<^verbatim>\<open>defaultRRule(create)\<close> returns a pointer to the first inclusion rule, creating one
  when asked to. The result says whether the pointer is non-null; the rule it points to
  is then the head of \<open>mRRules\<close> of the returned state.
\<close>

definition defaultRRule :: "RuleEngine \<Rightarrow> bool \<Rightarrow> Recurrence \<Rightarrow> bool \<times> Recurrence" where
  "defaultRRule eng create r =
     (if mRRules r = [] then
        (if \<not> create \<or> mRecurReadOnly r then (False, r)
         else (True, addRRule (Some (rule_setStartDt (startDateTime r) (rule_new eng))) r))
      else (True, r))"

definition defaultRRuleConst :: "Recurrence \<Rightarrow> RecurrenceRule option" where
  "defaultRRuleConst r = (case mRRules r of [] \<Rightarrow> None | rule # _ \<Rightarrow> Some rule)"

text \<open>A setter called through the pointer that \<^verbatim>\<open>defaultRRule\<close> returned.\<close>

definition onDefaultRRule :: "(RecurrenceRule \<Rightarrow> RecurrenceRule) \<Rightarrow> Recurrence \<Rightarrow> Recurrence" where
  "onDefaultRRule f r =
     (case mRRules r of
        [] \<Rightarrow> r
      | rule # rules \<Rightarrow> ruleNotifies rule (r\<lparr>mRRules := f rule # rules\<rparr>))"

definition setEndDateTime :: "RuleEngine \<Rightarrow> KDateTime \<Rightarrow> Recurrence \<Rightarrow> Recurrence" where
  "setEndDateTime eng dateTime r =
     (if mRecurReadOnly r then r
      else
        case defaultRRule eng True r of
          (False, r1) \<Rightarrow> r1
        | (True, r1) \<Rightarrow> updated (onDefaultRRule (rule_setEndDt dateTime) r1))"

definition setDuration :: "RuleEngine \<Rightarrow> int \<Rightarrow> Recurrence \<Rightarrow> Recurrence" where
  "setDuration eng n r =
     (if mRecurReadOnly r then r
      else
        case defaultRRule eng True r of
          (False, r1) \<Rightarrow> r1
        | (True, r1) \<Rightarrow> updated (onDefaultRRule (rule_setDuration n) r1))"

definition setFrequency :: "RuleEngine \<Rightarrow> int \<Rightarrow> Recurrence \<Rightarrow> Recurrence" where
  "setFrequency eng freq r =
     (if mRecurReadOnly r \<or> freq \<le> 0 then r
      else
        case defaultRRule eng True r of
          (False, r1) \<Rightarrow> updated r1
        | (True, r1) \<Rightarrow> updated (onDefaultRRule (rule_setFrequency freq) r1))"

text \<open>
  \<^verbatim>\<open>shiftTimes\<close>: each stored instant is converted to the old spec, then stamped with
  the new.

  Modelled from the spec: \<^verbatim>\<open>RecurrenceRule::shiftTimes\<close> does the same to the start instant
  of the rule and to its end, if it has one.
\<close>

definition shiftInstant :: "Spec \<Rightarrow> Spec \<Rightarrow> KDateTime \<Rightarrow> KDateTime" where
  "shiftInstant oldSpec newSpec k = setTimeSpec (toTimeSpec k oldSpec) newSpec"

definition rule_shiftTimes :: "Spec \<Rightarrow> Spec \<Rightarrow> RecurrenceRule \<Rightarrow> RecurrenceRule" where
  "rule_shiftTimes oldSpec newSpec rule =
     rule\<lparr>rule_startInstant := shiftInstant oldSpec newSpec (rule_startInstant rule),
          rule_termination :=
            (case rule_termination rule of
               Until dt \<Rightarrow> Until (shiftInstant oldSpec newSpec dt)
             | other \<Rightarrow> other)\<rparr>"

definition shiftTimes :: "Spec \<Rightarrow> Spec \<Rightarrow> Recurrence \<Rightarrow> Recurrence" where
  "shiftTimes oldSpec newSpec r =
     (if mRecurReadOnly r then r
      else
        let r1 = r\<lparr>mStartDateTime := shiftInstant oldSpec newSpec (mStartDateTime r)\<rparr>;
            r2 = r1\<lparr>mRDateTimes := map (shiftInstant oldSpec newSpec) (mRDateTimes r1)\<rparr>;
            r3 = r2\<lparr>mExDateTimes := map (shiftInstant oldSpec newSpec) (mExDateTimes r2)\<rparr>
        in forExRules (rule_shiftTimes oldSpec newSpec)
             (forRRules (rule_shiftTimes oldSpec newSpec) r3))"

definition unsetRecurs :: "Recurrence \<Rightarrow> Recurrence" where
  "unsetRecurs r = (if mRecurReadOnly r then r else updated (r\<lparr>mRRules := []\<rparr>))"

definition clear :: "Recurrence \<Rightarrow> Recurrence" where
  "clear r =
     (if mRecurReadOnly r then r
      else updated (r\<lparr>mRRules := [], mExRules := [], mRDates := [], mRDateTimes := [],
                      mExDates := [], mExDateTimes := [], mCachedType := rMax\<rparr>))"


definition setStartDateTime :: "KDateTime \<Rightarrow> Recurrence \<Rightarrow> Recurrence" where
  "setStartDateTime start r =
     (if mRecurReadOnly r then r
      else
        let r1 = r\<lparr>mStartDateTime := start\<rparr>;
            r2 = (if isDateOnly start then setFloats True r1
                  else forExRules (rule_setStartDt start)
                         (forRRules (rule_setStartDt start) (setFloats False r1)))
        in updated r2)"

definition setRDateTimes :: "KDateTime list \<Rightarrow> Recurrence \<Rightarrow> Recurrence" where
  "setRDateTimes rdates r =
     (if mRecurReadOnly r then r
      else updated (r\<lparr>mRDateTimes := sortUnique toUtcSecs rdates\<rparr>))"

definition addRDateTime :: "KDateTime \<Rightarrow> Recurrence \<Rightarrow> Recurrence" where
  "addRDateTime rdate r =
     (if mRecurReadOnly r then r
      else updated (r\<lparr>mRDateTimes := insertSorted toUtcSecs rdate (mRDateTimes r)\<rparr>))"

definition setRDates :: "QDate list \<Rightarrow> Recurrence \<Rightarrow> Recurrence" where
  "setRDates rdates r =
     (if mRecurReadOnly r then r
      else updated (r\<lparr>mRDates := sortUnique id rdates\<rparr>))"

definition addRDate :: "QDate \<Rightarrow> Recurrence \<Rightarrow> Recurrence" where
  "addRDate rdate r =
     (if mRecurReadOnly r then r
      else updated (r\<lparr>mRDates := insertSorted id rdate (mRDates r)\<rparr>))"

definition setExDateTimes :: "KDateTime list \<Rightarrow> Recurrence \<Rightarrow> Recurrence" where
  "setExDateTimes exdates r =
     (if mRecurReadOnly r then r
      else r\<lparr>mExDateTimes := sortUnique toUtcSecs exdates\<rparr>)"

definition addExDateTime :: "KDateTime \<Rightarrow> Recurrence \<Rightarrow> Recurrence" where
  "addExDateTime exdate r =
     (if mRecurReadOnly r then r
      else updated (r\<lparr>mExDateTimes := insertSorted toUtcSecs exdate (mExDateTimes r)\<rparr>))"

definition setExDates :: "QDate list \<Rightarrow> Recurrence \<Rightarrow> Recurrence" where
  "setExDates exdates r =
     (if mRecurReadOnly r then r
      else updated (r\<lparr>mExDates := sortUnique id exdates\<rparr>))"

definition addExDate :: "QDate \<Rightarrow> Recurrence \<Rightarrow> Recurrence" where
  "addExDate exdate r =
     (if mRecurReadOnly r then r
      else updated (r\<lparr>mExDates := insertSorted id exdate (mExDates r)\<rparr>))"

subsection \<open>Queries on the first rule\<close>

definition duration :: "RuleEngine \<Rightarrow> Recurrence \<Rightarrow> int" where
  "duration eng r = (case defaultRRuleConst r of None \<Rightarrow> 0 | Some rrule \<Rightarrow> rule_duration eng rrule)"

definition durationTo :: "RuleEngine \<Rightarrow> KDateTime \<Rightarrow> Recurrence \<Rightarrow> int" where
  "durationTo eng datetime r =
     (case defaultRRuleConst r of None \<Rightarrow> 0 | Some rrule \<Rightarrow> rule_durationTo eng rrule datetime)"

definition frequency :: "Recurrence \<Rightarrow> int" where
  "frequency r = (case defaultRRuleConst r of None \<Rightarrow> 0 | Some rrule \<Rightarrow> rule_frequency rrule)"

subsection \<open>Occurrence queries\<close>

definition recursAt :: "RuleEngine \<Rightarrow> Recurrence \<Rightarrow> KDateTime \<Rightarrow> bool" where
  "recursAt eng r dt =
     (let dtrecur = toTimeSpec dt (timeSpec (mStartDateTime r))
      in if containsSorted toUtcSecs dtrecur (mExDateTimes r)
            \<or> containsSorted id (date dtrecur) (mExDates r) then False
         else if list_ex (\<lambda>x. rule_recursAt eng x dtrecur) (mExRules r) then False
         else if kdt_eq (startDateTime r) dtrecur
                 \<or> containsSorted toUtcSecs dtrecur (mRDateTimes r) then True
         else if list_ex (\<lambda>x. rule_recursAt eng x dtrecur) (mRRules r) then True
         else False)"




text \<open>
  The closing loop of \<^verbatim>\<open>recurTimesOn\<close> and \<^verbatim>\<open>timesInInterval\<close>: remove each excluded
  value, searching from the index of the last removal.
\<close>

fun removeEach :: "('a \<Rightarrow> int) \<Rightarrow> 'a list \<Rightarrow> 'a list \<Rightarrow> nat \<Rightarrow> 'a list" where
  "removeEach key [] tms st = tms"
| "removeEach key (e # es) tms st =
     (case removeSorted key e st tms of
        (tms1, j) \<Rightarrow> removeEach key es tms1 (if 0 \<le> j then nat j else st))"



text \<open>
  \<^verbatim>\<open>timesInInterval\<close>. The explicit dates are promoted by setting the date of a copy of
  the start date/time, one after the other.
\<close>

fun promoteDates :: "KDateTime \<Rightarrow> QDate list \<Rightarrow> KDateTime list" where
  "promoteDates kdt [] = []"
| "promoteDates kdt (qd # qds) = (let kdt1 = setDate kdt qd in kdt1 # promoteDates kdt1 qds)"

function skipBefore :: "KDateTime list \<Rightarrow> nat \<Rightarrow> QDate \<Rightarrow> nat" where
  "skipBefore tms idt ex =
     (if idt < length tms \<and> date (tms ! idt) < ex then skipBefore tms (Suc idt) ex
      else idt)"
  by pat_completeness auto
termination
  by (relation "measure (\<lambda>(tms, idt, ex). length tms - idt)") auto

declare skipBefore.simps [simp del]

function removeOnDate :: "KDateTime list \<Rightarrow> nat \<Rightarrow> QDate \<Rightarrow> KDateTime list" where
  "removeOnDate tms idt ex =
     (if idt < length tms \<and> date (tms ! idt) = ex
      then removeOnDate (removeAt idt tms) idt ex
      else tms)"
  by pat_completeness auto
termination
  by (relation "measure (\<lambda>(tms, idt, ex). length tms)") (auto simp: removeAt_def)

declare removeOnDate.simps [simp del]

fun removeExDates :: "QDate list \<Rightarrow> KDateTime list \<Rightarrow> nat \<Rightarrow> KDateTime list" where
  "removeExDates [] tms idt = tms"
| "removeExDates (ex # exs) tms idt =
     (if idt < length tms then
        (let idt1 = skipBefore tms idt ex;
             tms1 = removeOnDate tms idt1 ex
         in removeExDates exs tms1 idt1)
      else tms)"

definition timesInInterval :: "RuleEngine \<Rightarrow> Recurrence \<Rightarrow> KDateTime \<Rightarrow> KDateTime \<Rightarrow> KDateTime list"
  where
  "timesInInterval eng r start endDt =
     (let tms0 = concat (map (\<lambda>x. rule_timesInInterval eng x start endDt) (mRRules r));
          tms1 = tms0 @ mRDateTimes r;
          tms2 = tms1 @ promoteDates (startDateTime r) (mRDates r);
          tms3 = sortUnique toUtcSecs tms2;
          tms4 = removeExDates (mExDates r) tms3 0;
          extimes0 = concat (map (\<lambda>x. rule_timesInInterval eng x start endDt) (mExRules r));
          extimes = sortUnique toUtcSecs (extimes0 @ mExDateTimes r)
      in removeEach toUtcSecs extimes tms4 0)"

subsection \<open>Next and previous occurrence\<close>

fun firstRDateAfter :: "KDateTime \<Rightarrow> QDate list \<Rightarrow> KDateTime \<Rightarrow> KDateTime list" where
  "firstRDateAfter kdt [] nextDT = []"
| "firstRDateAfter kdt (qd # qds) nextDT =
     (let kdt1 = setDate kdt qd
      in if kdt_lt nextDT kdt1 then [kdt1] else firstRDateAfter kdt1 qds nextDT)"

text \<open>The candidates of one round of \<^verbatim>\<open>getNextDateTime\<close>, after \<^verbatim>\<open>dates.sortUnique()\<close>.\<close>

definition nextDates :: "RuleEngine \<Rightarrow> Recurrence \<Rightarrow> KDateTime \<Rightarrow> KDateTime list" where
  "nextDates eng r nextDT =
     (let dates0 = (if kdt_lt nextDT (startDateTime r) then [startDateTime r] else []);
          i = findGT toUtcSecs nextDT (mRDateTimes r);
          dates1 = (if 0 \<le> i then dates0 @ [mRDateTimes r ! nat i] else dates0);
          dates2 = dates1 @ firstRDateAfter (startDateTime r) (mRDates r) nextDT;
          dates3 = dates2 @ concat (map (\<lambda>x. case rule_getNextDate eng x nextDT of
                                                None \<Rightarrow> [] | Some dt \<Rightarrow> [dt]) (mRRules r))
      in sortUnique toUtcSecs dates3)"

text \<open>The test that a candidate is excluded neither explicitly nor by an exclusion rule.\<close>

definition notExcluded :: "RuleEngine \<Rightarrow> Recurrence \<Rightarrow> KDateTime \<Rightarrow> bool" where
  "notExcluded eng r dt =
     (\<not> containsSorted id (date dt) (mExDates r)
      \<and> \<not> containsSorted toUtcSecs dt (mExDateTimes r)
      \<and> foldl (\<lambda>allowed x. allowed \<and> \<not> rule_recursAt eng x dt) True (mExRules r))"

function getNextDateTime_loop ::
  "RuleEngine \<Rightarrow> Recurrence \<Rightarrow> nat \<Rightarrow> KDateTime \<Rightarrow> KDateTime option" where
  "getNextDateTime_loop eng r loop nextDT =
     (if loop < 1000 then
        (case nextDates eng r nextDT of
           [] \<Rightarrow> None
         | dt # _ \<Rightarrow>
             if notExcluded eng r dt then Some dt
             else getNextDateTime_loop eng r (Suc loop) dt)
      else None)"
  by pat_completeness auto
termination
  by (relation "measure (\<lambda>(eng, r, loop, nextDT). 1000 - loop)") auto

declare getNextDateTime_loop.simps [simp del]

definition getNextDateTime :: "RuleEngine \<Rightarrow> Recurrence \<Rightarrow> KDateTime \<Rightarrow> KDateTime option" where
  "getNextDateTime eng r preDateTime = getNextDateTime_loop eng r 0 preDateTime"

text \<open>The loop of \<^verbatim>\<open>getPreviousDateTime\<close> over the explicit dates runs from the last to the first.\<close>

fun lastRDateBefore :: "KDateTime \<Rightarrow> QDate list \<Rightarrow> KDateTime \<Rightarrow> KDateTime list" where
  "lastRDateBefore kdt [] prevDT = []"
| "lastRDateBefore kdt (qd # qds) prevDT =
     (let kdt1 = setDate kdt qd
      in if kdt_lt kdt1 prevDT then [kdt1] else lastRDateBefore kdt1 qds prevDT)"

definition prevDates :: "RuleEngine \<Rightarrow> Recurrence \<Rightarrow> KDateTime \<Rightarrow> KDateTime list" where
  "prevDates eng r prevDT =
     (let dates0 = (if kdt_lt (startDateTime r) prevDT then [startDateTime r] else []);
          i = findLT toUtcSecs prevDT (mRDateTimes r);
          dates1 = (if 0 \<le> i then dates0 @ [mRDateTimes r ! nat i] else dates0);
          dates2 = dates1 @ lastRDateBefore (startDateTime r) (rev (mRDates r)) prevDT;
          dates3 = dates2 @ concat (map (\<lambda>x. case rule_getPreviousDate eng x prevDT of
                                                None \<Rightarrow> [] | Some dt \<Rightarrow> [dt]) (mRRules r))
      in sortUnique toUtcSecs dates3)"

function getPreviousDateTime_loop ::
  "RuleEngine \<Rightarrow> Recurrence \<Rightarrow> nat \<Rightarrow> KDateTime \<Rightarrow> KDateTime option" where
  "getPreviousDateTime_loop eng r loop prevDT =
     (if loop < 1000 then
        (case prevDates eng r prevDT of
           [] \<Rightarrow> None
         | dt # dts \<Rightarrow>
             if notExcluded eng r (last (dt # dts)) then Some (last (dt # dts))
             else getPreviousDateTime_loop eng r (Suc loop) (last (dt # dts)))
      else None)"
  by pat_completeness auto
termination
  by (relation "measure (\<lambda>(eng, r, loop, prevDT). 1000 - loop)") auto

declare getPreviousDateTime_loop.simps [simp del]

definition getPreviousDateTime :: "RuleEngine \<Rightarrow> Recurrence \<Rightarrow> KDateTime \<Rightarrow> KDateTime option" where
  "getPreviousDateTime eng r afterDateTime = getPreviousDateTime_loop eng r 0 afterDateTime"


section \<open>Sample data\<close>

text \<open>
  A rule engine for the examples: every rule recurs once a day from its start instant,
  without end. The occurrences of a rule are \<open>dailyOccurrence rule k\<close> for \<open>k \<ge> 0\<close>.
\<close>

definition dailyOccurrence :: "RecurrenceRule \<Rightarrow> int \<Rightarrow> KDateTime" where
  "dailyOccurrence rule k =
     (rule_startInstant rule)\<lparr>wallSecs := wallSecs (rule_startInstant rule) + k * 86400\<rparr>"

definition sinceStart :: "RecurrenceRule \<Rightarrow> KDateTime \<Rightarrow> int" where
  "sinceStart rule dt = toUtcSecs dt - toUtcSecs (rule_startInstant rule)"

definition dailyEngine :: RuleEngine where
  "dailyEngine =
     \<lparr>rule_recursAt = (\<lambda>rule dt. 0 \<le> sinceStart rule dt \<and> sinceStart rule dt mod 86400 = 0),
      rule_recursOn = (\<lambda>rule qd sp. date (toTimeSpec (rule_startInstant rule) sp) \<le> qd),
      rule_recurTimesOn =
        (\<lambda>rule qd sp. if date (toTimeSpec (rule_startInstant rule) sp) \<le> qd
                       then [time (toTimeSpec (rule_startInstant rule) sp)] else []),
      rule_timesInInterval =
        (\<lambda>rule st en. filter (\<lambda>x. toUtcSecs st \<le> toUtcSecs x \<and> toUtcSecs x \<le> toUtcSecs en)
                         (map (dailyOccurrence rule) [0 .. sinceStart rule en div 86400])),
      rule_getNextDate =
        (\<lambda>rule dt. Some (if sinceStart rule dt < 0 then rule_startInstant rule
                          else dailyOccurrence rule (sinceStart rule dt div 86400 + 1))),
      rule_getPreviousDate =
        (\<lambda>rule dt. if sinceStart rule dt \<le> 0 then None
                    else Some (dailyOccurrence rule ((sinceStart rule dt - 1) div 86400))),
      rule_duration =
        (\<lambda>rule. case rule_termination rule of Count n \<Rightarrow> n | Never \<Rightarrow> - 1 | Until dt \<Rightarrow> 0),
      rule_durationTo =
        (\<lambda>rule dt. if sinceStart rule dt < 0 then 0 else sinceStart rule dt div 86400 + 1),
      rule_new = \<lparr>rule_id = 0, rule_startInstant = nullKDateTime, rule_allDay = False,
                  rule_frequency = 0, rule_termination = Never, rule_observed = False\<rparr>\<rparr>"

text \<open>A rule with the given address and frequency, starting on day 10 at 10:00 UTC.\<close>

definition sampleRule :: "nat \<Rightarrow> int \<Rightarrow> RecurrenceRule" where
  "sampleRule n freq =
     \<lparr>rule_id = n, rule_startInstant = mkKDateTime 10 (mkQTime 10 0 0) UTC, rule_allDay = False,
      rule_frequency = freq, rule_termination = Count 5, rule_observed = True\<rparr>"

text \<open>A recurrence with one rule, and one with the same first rule and more of everything.\<close>

definition oneRuleRecurrence :: Recurrence where
  "oneRuleRecurrence =
     newRecurrence\<lparr>mRRules := [sampleRule 1 2],
                   mStartDateTime := mkKDateTime 10 (mkQTime 10 0 0) UTC\<rparr>"

definition busyRecurrence :: Recurrence where
  "busyRecurrence =
     newRecurrence\<lparr>mRRules := [sampleRule 1 2, sampleRule 2 7], mExRules := [sampleRule 3 1],
                   mRDates := [13, 14], mExDates := [12],
                   mRDateTimes := [mkKDateTime 11 (mkQTime 9 0 0) UTC],
                   mStartDateTime := mkKDateTime 10 (mkQTime 10 0 0) UTC,
                   mObservers := [1, 2]\<rparr>"

text \<open>
  The same recurrence, read-only; and a recurrence without rules that has two observers and
  has cached its type.
\<close>

definition readOnlyRecurrence :: Recurrence where
  "readOnlyRecurrence = busyRecurrence\<lparr>mRecurReadOnly := True\<rparr>"

definition cachedRecurrence :: Recurrence where
  "cachedRecurrence =
     newRecurrence\<lparr>mStartDateTime := mkKDateTime 10 (mkQTime 10 0 0) UTC,
                   mObservers := [1, 2], mCachedType := rDaily\<rparr>"

text \<open>The stored instants of a recurrence: the anchor and the explicit date/times.\<close>

definition storedInstants :: "Recurrence \<Rightarrow> KDateTime list" where
  "storedInstants r = mStartDateTime r # mRDateTimes r @ mExDateTimes r"

text \<open>The wall-clock reading of an instant: its date and its time of day.\<close>

definition wallClock :: "KDateTime \<Rightarrow> QDate \<times> QTime" where
  "wallClock k = (date k, time k)"

text \<open>The observers that \<^verbatim>\<open>updated()\<close> calls: the registered non-null pointers.\<close>

definition liveObservers :: "Recurrence \<Rightarrow> nat list" where
  "liveObservers r = filter (\<lambda>ob. ob \<noteq> 0) (mObservers r)"

text \<open>
  What a mutator did to the cache and the observers: the cached type is reset, and the
  trace has grown by \<open>k\<close> calls to every live observer.
\<close>

definition notifiedTimes :: "nat \<Rightarrow> Recurrence \<Rightarrow> Recurrence \<Rightarrow> bool" where
  "notifiedTimes k r r' =
     (mCachedType r' = rMax \<and> notified r' = notified r @ concat (replicate k (liveObservers r)))"

text \<open>The number of rules of a recurrence that report their changes to it.\<close>

definition observedRules :: "Recurrence \<Rightarrow> nat" where
  "observedRules r = length (filter rule_observed (mRRules r @ mExRules r))"







text \<open>Two states hold the same four lists.\<close>

definition sameLists :: "Recurrence \<Rightarrow> Recurrence \<Rightarrow> bool" where
  "sameLists r r' =
     (mRDates r' = mRDates r \<and> mRDateTimes r' = mRDateTimes r
      \<and> mExDates r' = mExDates r \<and> mExDateTimes r' = mExDateTimes r)"



text \<open>
  A recurrence without rules: start on day 10 at 10:00 UTC, one inclusion date/time on
  day 50 at 09:00 and the inclusion date 60.
\<close>

definition explicitRecurrence :: Recurrence where
  "explicitRecurrence =
     newRecurrence\<lparr>mStartDateTime := mkKDateTime 10 (mkQTime 10 0 0) UTC,
                   mRDateTimes := [mkKDateTime 50 (mkQTime 9 0 0) UTC],
                   mRDates := [60]\<rparr>"



text \<open>
  One round of the search for the next or the previous occurrence picks a candidate: the
  first of the sorted dates for the next, the last of them for the previous occurrence.
\<close>

definition nextCandidate :: "RuleEngine \<Rightarrow> Recurrence \<Rightarrow> KDateTime \<Rightarrow> KDateTime option" where
  "nextCandidate eng r t = (case nextDates eng r t of [] \<Rightarrow> None | dt # _ \<Rightarrow> Some dt)"

definition prevCandidate :: "RuleEngine \<Rightarrow> Recurrence \<Rightarrow> KDateTime \<Rightarrow> KDateTime option" where
  "prevCandidate eng r t =
     (case prevDates eng r t of [] \<Rightarrow> None | dt # dts \<Rightarrow> Some (last (dt # dts)))"

text \<open>
  \<open>rejectedRounds cand ok n t\<close> is \<open>Some t'\<close> when \<open>n\<close> rounds in a row, started at
  \<open>t\<close>, each find a candidate and reject it, \<open>t'\<close> being the last rejected candidate
  (\<open>t\<close> itself for no round).
\<close>

fun rejectedRounds ::
  "(KDateTime \<Rightarrow> KDateTime option) \<Rightarrow> (KDateTime \<Rightarrow> bool) \<Rightarrow> nat \<Rightarrow> KDateTime \<Rightarrow> KDateTime option"
  where
  "rejectedRounds cand ok 0 t = Some t"
| "rejectedRounds cand ok (Suc n) t =
     (case cand t of
        None \<Rightarrow> None
      | Some c \<Rightarrow> if ok c then None else rejectedRounds cand ok n c)"

text \<open>The search with a budget of rounds, by which the two loops are compared.\<close>

fun searchRounds ::
  "(KDateTime \<Rightarrow> KDateTime option) \<Rightarrow> (KDateTime \<Rightarrow> bool) \<Rightarrow> nat \<Rightarrow> KDateTime \<Rightarrow> KDateTime option"
  where
  "searchRounds cand ok 0 t = None"
| "searchRounds cand ok (Suc n) t =
     (case cand t of
        None \<Rightarrow> None
      | Some c \<Rightarrow> if ok c then Some c else searchRounds cand ok n c)"

text \<open>The recurrence without rules, with its inclusion date 60 excluded again.\<close>

definition excludedRecurrence :: Recurrence where
  "excludedRecurrence = explicitRecurrence\<lparr>mExDates := [60]\<rparr>"

section \<open>Properties\<close>

subsection \<open>The notification trace and the fields that notifications leave alone\<close>

lemma callObservers_eq: "callObservers obs trace = trace @ filter (\<lambda>ob. ob \<noteq> 0) obs"
  by (induction obs arbitrary: trace) auto

lemma updated_fields [simp]:
  "mExRules (updated r) = mExRules r" "mRRules (updated r) = mRRules r"
  "mRDateTimes (updated r) = mRDateTimes r" "mRDates (updated r) = mRDates r"
  "mExDateTimes (updated r) = mExDateTimes r" "mExDates (updated r) = mExDates r"
  "mStartDateTime (updated r) = mStartDateTime r" "mObservers (updated r) = mObservers r"
  "mFloating (updated r) = mFloating r" "mRecurReadOnly (updated r) = mRecurReadOnly r"
  "mCachedType (updated r) = rMax"
  "notified (updated r) = notified r @ liveObservers r"
  by (simp_all add: updated_def callObservers_eq liveObservers_def)

lemma ruleNotifies_fields [simp]:
  "mExRules (ruleNotifies x r) = mExRules r" "mRRules (ruleNotifies x r) = mRRules r"
  "mRDateTimes (ruleNotifies x r) = mRDateTimes r" "mRDates (ruleNotifies x r) = mRDates r"
  "mExDateTimes (ruleNotifies x r) = mExDateTimes r" "mExDates (ruleNotifies x r) = mExDates r"
  "mStartDateTime (ruleNotifies x r) = mStartDateTime r"
  "mObservers (ruleNotifies x r) = mObservers r"
  "mFloating (ruleNotifies x r) = mFloating r"
  "mRecurReadOnly (ruleNotifies x r) = mRecurReadOnly r"
  by (simp_all add: ruleNotifies_def recurrenceChanged_def)

lemma fold_ruleNotifies_fields [simp]:
  "mExRules (fold ruleNotifies xs r) = mExRules r"
  "mRRules (fold ruleNotifies xs r) = mRRules r"
  "mRDateTimes (fold ruleNotifies xs r) = mRDateTimes r"
  "mRDates (fold ruleNotifies xs r) = mRDates r"
  "mExDateTimes (fold ruleNotifies xs r) = mExDateTimes r"
  "mExDates (fold ruleNotifies xs r) = mExDates r"
  "mStartDateTime (fold ruleNotifies xs r) = mStartDateTime r"
  "mObservers (fold ruleNotifies xs r) = mObservers r"
  "mFloating (fold ruleNotifies xs r) = mFloating r"
  "mRecurReadOnly (fold ruleNotifies xs r) = mRecurReadOnly r"
  by (induction xs arbitrary: r) simp_all

lemma forRRules_fields [simp]:
  "mExRules (forRRules f r) = mExRules r" "mRRules (forRRules f r) = map f (mRRules r)"
  "mRDateTimes (forRRules f r) = mRDateTimes r" "mRDates (forRRules f r) = mRDates r"
  "mExDateTimes (forRRules f r) = mExDateTimes r" "mExDates (forRRules f r) = mExDates r"
  "mStartDateTime (forRRules f r) = mStartDateTime r" "mObservers (forRRules f r) = mObservers r"
  "mFloating (forRRules f r) = mFloating r" "mRecurReadOnly (forRRules f r) = mRecurReadOnly r"
  by (simp_all add: forRRules_def)

lemma forExRules_fields [simp]:
  "mExRules (forExRules f r) = map f (mExRules r)" "mRRules (forExRules f r) = mRRules r"
  "mRDateTimes (forExRules f r) = mRDateTimes r" "mRDates (forExRules f r) = mRDates r"
  "mExDateTimes (forExRules f r) = mExDateTimes r" "mExDates (forExRules f r) = mExDates r"
  "mStartDateTime (forExRules f r) = mStartDateTime r" "mObservers (forExRules f r) = mObservers r"
  "mFloating (forExRules f r) = mFloating r" "mRecurReadOnly (forExRules f r) = mRecurReadOnly r"
  by (simp_all add: forExRules_def)

subsection \<open>Queries answered by the first inclusion rule\<close>

text \<open>
  Claim C10. \<^verbatim>\<open>duration()\<close>, \<^verbatim>\<open>durationTo(t)\<close> and \<^verbatim>\<open>frequency()\<close> consult the first
  inclusion rule only: they are 0 when there is no inclusion rule, and otherwise they are
  what the first rule answers, so two recurrences with the same first rule agree on them
  whatever their further rules, explicit dates and exclusions are.
\<close>

theorem first_rule_only:
  "(mRRules r = [] \<longrightarrow> duration eng r = 0 \<and> durationTo eng t r = 0 \<and> frequency r = 0)
   \<and> (mRRules r = rule # rest \<and> mRRules r' = rule # rest' \<longrightarrow>
        duration eng r = rule_duration eng rule \<and> duration eng r' = duration eng r
        \<and> durationTo eng t r = rule_durationTo eng rule t
        \<and> durationTo eng t r' = durationTo eng t r
        \<and> frequency r = rule_frequency rule \<and> frequency r' = frequency r)"
  by (simp add: duration_def durationTo_def frequency_def defaultRRuleConst_def)

theorem first_rule_only_witness:
  "duration dailyEngine oneRuleRecurrence = 5 \<and> duration dailyEngine busyRecurrence = 5
   \<and> frequency oneRuleRecurrence = 2 \<and> frequency busyRecurrence = 2
   \<and> frequency newRecurrence = 0"
proof -
  have a: "mRRules oneRuleRecurrence = sampleRule 1 2 # []"
    by (simp add: oneRuleRecurrence_def newRecurrence_def)
  have b: "mRRules busyRecurrence = sampleRule 1 2 # [sampleRule 2 7]"
    by (simp add: busyRecurrence_def newRecurrence_def)
  have c: "mRRules newRecurrence = []"
    by (simp add: newRecurrence_def)
  have d: "rule_duration dailyEngine (sampleRule 1 2) = 5" "rule_frequency (sampleRule 1 2) = 2"
    by (simp_all add: dailyEngine_def sampleRule_def)
  from first_rule_only [of oneRuleRecurrence dailyEngine nullKDateTime "sampleRule 1 2" "[]"
      busyRecurrence "[sampleRule 2 7]"] a b d
  have "duration dailyEngine oneRuleRecurrence = 5 \<and> duration dailyEngine busyRecurrence = 5
        \<and> frequency oneRuleRecurrence = 2 \<and> frequency busyRecurrence = 2"
    by simp
  moreover
  from first_rule_only [of newRecurrence dailyEngine nullKDateTime "sampleRule 1 2" "[]"
      busyRecurrence "[sampleRule 2 7]"] c
  have "frequency newRecurrence = 0" by simp
  ultimately show ?thesis by simp
qed

subsection \<open>Occurrence at an instant\<close>

text \<open>
  Claim C1. With \<open>t'\<close> the instant \<open>t\<close> converted to the time specification of the
  start date/time, \<^verbatim>\<open>recursAt(t)\<close> is false whenever the date of \<open>t'\<close> is an exclusion
  date, \<open>t'\<close> is an exclusion date/time or an exclusion rule recurs at \<open>t'\<close>; otherwise it
  is true exactly when \<open>t'\<close> is the start date/time, or an inclusion date/time, or an
  inclusion rule recurs at \<open>t'\<close>.
\<close>

theorem recursAt_exclusion_first:
  "recursAt eng r t =
     (let t' = toTimeSpec t (timeSpec (mStartDateTime r))
      in \<not> (date t' \<in> set (mExDates r)
            \<or> (\<exists>x\<in>set (mExDateTimes r). kdt_eq x t')
            \<or> (\<exists>rule\<in>set (mExRules r). rule_recursAt eng rule t'))
         \<and> (kdt_eq (mStartDateTime r) t'
            \<or> (\<exists>x\<in>set (mRDateTimes r). kdt_eq x t')
            \<or> (\<exists>rule\<in>set (mRRules r). rule_recursAt eng rule t')))"
  by (auto simp: recursAt_def Let_def containsSorted_def list_ex_iff kdt_eq_def startDateTime_def)

subsection \<open>Read-only recurrences\<close>

text \<open>
  Claim C6. On a read-only recurrence each of the mutators \<^verbatim>\<open>clear\<close>,
  \<^verbatim>\<open>setStartDateTime\<close>, \<^verbatim>\<open>setFloats\<close>, \<^verbatim>\<open>setEndDateTime\<close>, \<^verbatim>\<open>setDuration\<close>,
  \<^verbatim>\<open>setFrequency\<close>, \<^verbatim>\<open>addRRule\<close>, \<^verbatim>\<open>addExRule\<close>, \<^verbatim>\<open>removeRRule\<close>, \<^verbatim>\<open>removeExRule\<close> and
  the setters and adders of the four lists returns the state it was given: no field
  changes and the notification trace does not grow. (\<^verbatim>\<open>shiftTimes\<close> and \<^verbatim>\<open>unsetRecurs\<close>
  do the same.)
\<close>

theorem readOnly_mutators_are_noops:
  assumes "mRecurReadOnly r"
  shows "clear r = r \<and> setStartDateTime t r = r \<and> setFloats fl r = r
    \<and> setEndDateTime eng t r = r \<and> setDuration eng n r = r \<and> setFrequency eng n r = r
    \<and> addRRule rrule r = r \<and> addExRule rrule r = r
    \<and> removeRRule rule r = r \<and> removeExRule rule r = r
    \<and> setRDateTimes dts r = r \<and> addRDateTime t r = r
    \<and> setRDates qds r = r \<and> addRDate qd r = r
    \<and> setExDateTimes dts r = r \<and> addExDateTime t r = r
    \<and> setExDates qds r = r \<and> addExDate qd r = r
    \<and> shiftTimes z1 z2 r = r \<and> unsetRecurs r = r"
  using assms
  by (simp add: clear_def setStartDateTime_def setFloats_def setEndDateTime_def setDuration_def
      setFrequency_def addRRule_def addExRule_def removeRRule_def removeExRule_def
      setRDateTimes_def addRDateTime_def setRDates_def addRDate_def setExDateTimes_def
      addExDateTime_def setExDates_def addExDate_def shiftTimes_def unsetRecurs_def
      split: option.split)

theorem readOnly_mutators_are_noops_witness:
  "mRecurReadOnly readOnlyRecurrence
   \<and> clear readOnlyRecurrence = readOnlyRecurrence
   \<and> setStartDateTime (mkDateOnly 20 UTC) readOnlyRecurrence = readOnlyRecurrence
   \<and> setExDateTimes [mkKDateTime 30 0 UTC] readOnlyRecurrence = readOnlyRecurrence
   \<and> addRRule (Some (sampleRule 9 1)) readOnlyRecurrence = readOnlyRecurrence
   \<and> notified (setFloats True readOnlyRecurrence) = []"
proof -
  have ro: "mRecurReadOnly readOnlyRecurrence"
    by (simp add: readOnlyRecurrence_def)
  have tr: "notified readOnlyRecurrence = []"
    by (simp add: readOnlyRecurrence_def busyRecurrence_def newRecurrence_def)
  from readOnly_mutators_are_noops [OF ro, of "mkDateOnly 20 UTC" True dailyEngine 3
      "Some (sampleRule 9 1)" "sampleRule 1 2" "[mkKDateTime 30 0 UTC]" "[15]" 15 UTC UTC] ro tr
  show ?thesis by simp
qed

subsection \<open>Setting the start date/time\<close>

lemma setFloats_start [simp]: "mStartDateTime (setFloats fl r) = mStartDateTime r"
  by (simp add: setFloats_def)

text \<open>A start with a time of day reaches the recurrence and every rule.\<close>

lemma setStartDateTime_timed:
  assumes "\<not> mRecurReadOnly r" and "\<not> isDateOnly t"
  shows "mStartDateTime (setStartDateTime t r) = t"
    and "\<forall>rule \<in> set (mRRules (setStartDateTime t r)) \<union> set (mExRules (setStartDateTime t r)).
           rule_startInstant rule = t"
    and "mFloating (setStartDateTime t r) = False"
  using assms
  by (auto simp: setStartDateTime_def Let_def setFloats_def rule_setStartDt_def)

text \<open>
  Claim C7. After \<^verbatim>\<open>setStartDateTime(t)\<close> on a recurrence that is not read-only, the
  start instant of every rule should be \<open>t\<close>, also when \<open>t\<close> is date-only. The code
  sets the rules' start only in the branch for a \<open>t\<close> with a time of day: with the
  date-only start of day 20, the recurrence takes the new start and becomes all-day, and
  its rule keeps the start it had (day 10, 10:00).
\<close>

theorem setStartDateTime_dateOnly_keeps_rule_start:
  "\<not> mRecurReadOnly oneRuleRecurrence
   \<and> mStartDateTime (setStartDateTime (mkDateOnly 20 UTC) oneRuleRecurrence) = mkDateOnly 20 UTC
   \<and> mFloating (setStartDateTime (mkDateOnly 20 UTC) oneRuleRecurrence)
   \<and> map rule_startInstant (mRRules (setStartDateTime (mkDateOnly 20 UTC) oneRuleRecurrence))
       = [mkKDateTime 10 (mkQTime 10 0 0) UTC]
   \<and> mkKDateTime 10 (mkQTime 10 0 0) UTC \<noteq> mkDateOnly 20 UTC"
  by (simp add: setStartDateTime_def Let_def setFloats_def oneRuleRecurrence_def newRecurrence_def
      mkDateOnly_def mkKDateTime_def mkQTime_def sampleRule_def rule_setFloats_def)

subsection \<open>Shifting the times to another time specification\<close>

lemma shiftInstant_props:
  "timeSpec (shiftInstant z1 z2 k) = z2"
  "wallClock (shiftInstant z1 z2 k) = wallClock (toTimeSpec k z1)"
  by (auto simp: shiftInstant_def setTimeSpec_def toTimeSpec_def wallClock_def date_def time_def)

lemma toTimeSpec_same_clock:
  "isDateOnly k \<or> utcOffset (timeSpec k) = utcOffset z1 \<Longrightarrow>
   wallClock (toTimeSpec k z1) = wallClock k"
  by (auto simp: toTimeSpec_def wallClock_def date_def time_def toUtcSecs_def)

lemma storedInstants_shiftTimes:
  "\<not> mRecurReadOnly r \<Longrightarrow>
   storedInstants (shiftTimes z1 z2 r) = map (shiftInstant z1 z2) (storedInstants r)"
  by (simp add: shiftTimes_def storedInstants_def Let_def)

text \<open>
  Claim C8, as stated: after \<^verbatim>\<open>shiftTimes(Z1, Z2)\<close> every stored instant has the wall-clock
  reading it had before. It fails for an instant that is not in \<open>Z1\<close>: the start
  10:00 UTC, shifted from UTC+1 to UTC+2, reads 11:00 afterwards.
\<close>

theorem shiftTimes_wall_clock_counterexample:
  "\<not> mRecurReadOnly oneRuleRecurrence
   \<and> wallClock (mStartDateTime oneRuleRecurrence) = (10, 36000)
   \<and> wallClock (mStartDateTime
         (shiftTimes (OffsetFromUTC 3600) (OffsetFromUTC 7200) oneRuleRecurrence)) = (10, 39600)
   \<and> timeSpec (mStartDateTime
         (shiftTimes (OffsetFromUTC 3600) (OffsetFromUTC 7200) oneRuleRecurrence))
       = OffsetFromUTC 7200"
  by (simp add: shiftTimes_def Let_def oneRuleRecurrence_def newRecurrence_def shiftInstant_def
      setTimeSpec_def toTimeSpec_def wallClock_def date_def time_def toUtcSecs_def
      mkKDateTime_def mkQTime_def)

text \<open>
  Claim C8, amended. After \<^verbatim>\<open>shiftTimes(Z1, Z2)\<close> on a recurrence that is not read-only,
  every stored instant (the start, each inclusion and each exclusion date/time) has the
  time specification \<open>Z2\<close> and the wall-clock reading that the instant had in \<open>Z1\<close>; this
  is the reading it had before when the instant is date-only or its time specification
  has the offset of \<open>Z1\<close>.
\<close>

theorem shiftTimes_wall_clock:
  assumes "\<not> mRecurReadOnly r"
  shows "list_all2
           (\<lambda>x y. timeSpec y = z2
                  \<and> wallClock y = wallClock (toTimeSpec x z1)
                  \<and> (isDateOnly x \<or> utcOffset (timeSpec x) = utcOffset z1
                      \<longrightarrow> wallClock y = wallClock x))
           (storedInstants r) (storedInstants (shiftTimes z1 z2 r))"
  unfolding storedInstants_shiftTimes [OF assms] list_all2_map2
  by (rule list_all2_refl) (auto simp: shiftInstant_props toTimeSpec_same_clock)

theorem shiftTimes_wall_clock_witness:
  "\<not> mRecurReadOnly busyRecurrence
   \<and> map wallClock (storedInstants busyRecurrence) = [(10, 36000), (11, 32400)]
   \<and> map wallClock (storedInstants (shiftTimes UTC (OffsetFromUTC 7200) busyRecurrence))
       = [(10, 36000), (11, 32400)]
   \<and> map timeSpec (storedInstants (shiftTimes UTC (OffsetFromUTC 7200) busyRecurrence))
       = [OffsetFromUTC 7200, OffsetFromUTC 7200]"
proof -
  have ro: "\<not> mRecurReadOnly busyRecurrence"
    by (simp add: busyRecurrence_def newRecurrence_def)
  have st: "storedInstants busyRecurrence
       = [\<lparr>wallSecs = 900000, timeSpec = UTC, isDateOnly = False\<rparr>,
          \<lparr>wallSecs = 982800, timeSpec = UTC, isDateOnly = False\<rparr>]"
    by (simp add: storedInstants_def busyRecurrence_def newRecurrence_def mkKDateTime_def
        mkQTime_def)
  from shiftTimes_wall_clock [OF ro, of "OffsetFromUTC 7200" UTC]
  obtain a b
    where ab: "storedInstants (shiftTimes UTC (OffsetFromUTC 7200) busyRecurrence) = [a, b]"
    and a: "timeSpec a = OffsetFromUTC 7200" "wallClock a = (10, 36000)"
    and b: "timeSpec b = OffsetFromUTC 7200" "wallClock b = (11, 32400)"
    unfolding st by (auto simp: list_all2_Cons1 wallClock_def date_def time_def)
  have "map wallClock (storedInstants busyRecurrence) = [(10, 36000), (11, 32400)]"
    unfolding st by (simp add: wallClock_def date_def time_def)
  with ro ab a b show ?thesis by simp
qed

subsection \<open>Notifications\<close>

lemma liveObservers_same [simp]:
  "liveObservers (updated r) = liveObservers r"
  "liveObservers (ruleNotifies x r) = liveObservers r"
  "liveObservers (fold ruleNotifies xs r) = liveObservers r"
  "liveObservers (forRRules f r) = liveObservers r"
  "liveObservers (forExRules f r) = liveObservers r"
  by (simp_all add: liveObservers_def)

lemma concat_replicate_Suc_end:
  "concat (replicate n xs) @ xs = concat (replicate (Suc n) xs)"
  by (induction n) simp_all

lemma ruleNotifies_notified:
  "notified (ruleNotifies x r) = notified r @ (if rule_observed x then liveObservers r else [])"
  by (simp add: ruleNotifies_def recurrenceChanged_def)

lemma fold_ruleNotifies_notified:
  "notified (fold ruleNotifies xs r)
     = notified r @ concat (replicate (length (filter rule_observed xs)) (liveObservers r))"
proof (induction xs arbitrary: r)
  case Nil
  show ?case by simp
next
  case (Cons x xs)
  show ?case
    by (simp add: Cons.IH ruleNotifies_notified)
qed

lemma observed_after_map:
  "(\<And>x. rule_observed (f x) = rule_observed x) \<Longrightarrow>
   filter rule_observed (map f xs) = map f (filter rule_observed xs)"
  by (induction xs) simp_all

lemma forRules_notified:
  "notified (forRRules f r)
     = notified r @ concat (replicate (length (filter rule_observed (mRRules r))) (liveObservers r))"
  "notified (forExRules f r)
     = notified r @ concat (replicate (length (filter rule_observed (mExRules r))) (liveObservers r))"
  by (simp_all add: forRRules_def forExRules_def fold_ruleNotifies_notified liveObservers_def)

lemma setFloats_notified:
  assumes "\<not> mRecurReadOnly r" and "fl \<noteq> mFloating r"
  shows "notifiedTimes (Suc (observedRules r)) r (setFloats fl r)"
  using assms
  by (simp add: notifiedTimes_def setFloats_def forRules_notified observedRules_def
      liveObservers_def replicate_add concat_replicate_Suc_end [symmetric] del: replicate_Suc)


lemma observed_setFloats [simp]:
  "length (filter rule_observed (mRRules (setFloats fl r))) = length (filter rule_observed (mRRules r))"
  "length (filter rule_observed (mExRules (setFloats fl r))) = length (filter rule_observed (mExRules r))"
  by (simp_all add: setFloats_def rule_setFloats_def observed_after_map)

lemma observedRules_setFloats [simp]: "observedRules (setFloats fl r) = observedRules r"
  by (simp add: observedRules_def setFloats_def rule_setFloats_def observed_after_map)

lemma observedRules_start [simp]: "observedRules (r\<lparr>mStartDateTime := t\<rparr>) = observedRules r"
  by (simp add: observedRules_def)

lemma notifiedTimes_trans:
  "notifiedTimes j r r1 \<Longrightarrow> liveObservers r1 = liveObservers r \<Longrightarrow>
   notified r2 = notified r1 @ concat (replicate k (liveObservers r1)) \<Longrightarrow> mCachedType r2 = rMax \<Longrightarrow>
   notifiedTimes (j + k) r r2"
  by (simp add: notifiedTimes_def replicate_add)

lemma notifiedTimes_updated:
  "notified r1 = notified r @ concat (replicate k (liveObservers r)) \<Longrightarrow>
   liveObservers r1 = liveObservers r \<Longrightarrow> notifiedTimes (Suc k) r (updated r1)"
  by (simp add: notifiedTimes_def concat_replicate_Suc_end del: replicate_Suc)

lemma setFloats_live [simp]: "liveObservers (setFloats fl r) = liveObservers r"
  by (simp add: setFloats_def liveObservers_def)

lemma setFloats_trace:
  "\<not> mRecurReadOnly r \<Longrightarrow>
   notified (setFloats fl r)
     = notified r @ concat (replicate (if fl = mFloating r then 0 else Suc (observedRules r))
                              (liveObservers r))"
  using setFloats_notified [of r fl]
  by (auto simp: notifiedTimes_def setFloats_def)

lemma setStartDateTime_notified:
  assumes "\<not> mRecurReadOnly r"
  shows "notifiedTimes
           (if isDateOnly t then (if mFloating r then 1 else observedRules r + 2)
            else (if mFloating r then 2 * observedRules r + 2 else observedRules r + 1))
           r (setStartDateTime t r)"
proof -
  let ?r1 = "r\<lparr>mStartDateTime := t\<rparr>"
  have ro: "\<not> mRecurReadOnly ?r1" using assms by simp
  have live: "liveObservers ?r1 = liveObservers r" by (simp add: liveObservers_def)
  show ?thesis
  proof (cases "isDateOnly t")
    case True
    have "notifiedTimes (Suc (if True = mFloating r then 0 else Suc (observedRules r))) r
            (updated (setFloats True ?r1))"
      by (rule notifiedTimes_updated) (simp_all add: setFloats_trace [OF ro] live)
    with True assms show ?thesis
      by (auto simp: setStartDateTime_def Let_def split: if_splits)
  next
    case False
    let ?r2 = "setFloats False ?r1"
    have "notified (forExRules (rule_setStartDt t) (forRRules (rule_setStartDt t) ?r2))
            = notified r @ concat (replicate ((if False = mFloating r then 0 else Suc (observedRules r))
                                              + observedRules r) (liveObservers r))"
      by (simp add: forRules_notified setFloats_trace [OF ro] live replicate_add
          observedRules_def del: replicate_Suc)
    then have "notifiedTimes (Suc ((if False = mFloating r then 0 else Suc (observedRules r))
                                   + observedRules r)) r
            (updated (forExRules (rule_setStartDt t) (forRRules (rule_setStartDt t) ?r2)))"
      by (rule notifiedTimes_updated) (simp add: live)
    with False assms show ?thesis
      by (auto simp: setStartDateTime_def Let_def mult_2 split: if_splits)
  qed
qed

lemma simple_mutators_notified:
  assumes "\<not> mRecurReadOnly r"
  shows "notifiedTimes 1 r (setRDates qds r)" "notifiedTimes 1 r (addRDate qd r)"
    "notifiedTimes 1 r (setRDateTimes dts r)" "notifiedTimes 1 r (addRDateTime t r)"
    "notifiedTimes 1 r (setExDates qds r)" "notifiedTimes 1 r (addExDate qd r)"
    "notifiedTimes 1 r (addExDateTime t r)" "notifiedTimes 1 r (clear r)"
    "notifiedTimes 1 r (removeRRule rule r)" "notifiedTimes 1 r (removeExRule rule r)"
    "notifiedTimes 1 r (unsetRecurs r)"
  using assms
  by (simp_all add: notifiedTimes_def setRDates_def addRDate_def setRDateTimes_def
      addRDateTime_def setExDates_def addExDate_def addExDateTime_def clear_def removeRRule_def
      removeExRule_def unsetRecurs_def liveObservers_def)

lemma addRule_notified:
  assumes "\<not> mRecurReadOnly r" and "\<not> rule_observed rule"
  shows "notifiedTimes 1 r (addRRule (Some rule) r)" "notifiedTimes 1 r (addExRule (Some rule) r)"
  using assms
  by (simp_all add: notifiedTimes_def addRRule_def addExRule_def Let_def ruleNotifies_def
      liveObservers_def)

text \<open>
  Claim C5, amended. On a recurrence that is not read-only, the setters and adders of the
  lists other than \<^verbatim>\<open>setExDateTimes\<close>, \<^verbatim>\<open>clear\<close>, \<^verbatim>\<open>removeRRule\<close>, \<^verbatim>\<open>removeExRule\<close>,
  and \<^verbatim>\<open>addRRule\<close> and \<^verbatim>\<open>addExRule\<close> of a rule that does not yet report to the
  recurrence, reset the cached type and call every live observer exactly once.
  \<^verbatim>\<open>setFloats\<close> with a changed flag and \<^verbatim>\<open>setStartDateTime\<close> reset the cached type
  and call every live observer once for each call of \<^verbatim>\<open>updated()\<close> they cause:
  \<^verbatim>\<open>setFloats\<close> once and once more for each rule that reports its change, and
  \<^verbatim>\<open>setStartDateTime\<close> once, and in addition what its call of \<^verbatim>\<open>setFloats\<close> delivers
  when the all-day flag changes and once for each reporting rule whose start it sets.
\<close>

theorem mutators_notify:
  assumes "\<not> mRecurReadOnly r"
  shows "notifiedTimes 1 r (setRDates qds r) \<and> notifiedTimes 1 r (addRDate qd r)
    \<and> notifiedTimes 1 r (setRDateTimes dts r) \<and> notifiedTimes 1 r (addRDateTime t r)
    \<and> notifiedTimes 1 r (setExDates qds r) \<and> notifiedTimes 1 r (addExDate qd r)
    \<and> notifiedTimes 1 r (addExDateTime t r) \<and> notifiedTimes 1 r (clear r)
    \<and> notifiedTimes 1 r (removeRRule rule r) \<and> notifiedTimes 1 r (removeExRule rule r)
    \<and> (\<not> rule_observed rule \<longrightarrow>
         notifiedTimes 1 r (addRRule (Some rule) r) \<and> notifiedTimes 1 r (addExRule (Some rule) r))
    \<and> (fl \<noteq> mFloating r \<longrightarrow> notifiedTimes (observedRules r + 1) r (setFloats fl r))
    \<and> notifiedTimes
         (if isDateOnly t then (if mFloating r then 1 else observedRules r + 2)
          else (if mFloating r then 2 * observedRules r + 2 else observedRules r + 1))
         r (setStartDateTime t r)"
  using simple_mutators_notified [OF assms] addRule_notified [OF assms]
    setFloats_notified [OF assms] setStartDateTime_notified [OF assms]
  by simp

text \<open>
  Claim C5, as stated: every mutator resets the cached type and delivers exactly one
  notification to every observer. On a recurrence with the observers 1 and 2 and no
  rules, \<^verbatim>\<open>setStartDateTime\<close> with a date-only start (the all-day flag changes) calls
  each observer twice, and \<^verbatim>\<open>setExDateTimes\<close> stores the list, calls no observer and
  leaves the cached type as it was.
\<close>

theorem mutators_notify_counterexample:
  "\<not> mRecurReadOnly cachedRecurrence \<and> mObservers cachedRecurrence = [1, 2]
   \<and> notified cachedRecurrence = [] \<and> mCachedType cachedRecurrence = rDaily
   \<and> notified (setStartDateTime (mkDateOnly 20 UTC) cachedRecurrence) = [1, 2, 1, 2]
   \<and> mExDateTimes (setExDateTimes [mkKDateTime 12 0 UTC] cachedRecurrence) = [mkKDateTime 12 0 UTC]
   \<and> notified (setExDateTimes [mkKDateTime 12 0 UTC] cachedRecurrence) = []
   \<and> mCachedType (setExDateTimes [mkKDateTime 12 0 UTC] cachedRecurrence) = rDaily"
  by (simp add: cachedRecurrence_def newRecurrence_def setStartDateTime_def setFloats_def Let_def
      mkDateOnly_def setExDateTimes_def sortUnique_def liveObservers_def forRRules_def
      forExRules_def)

theorem mutators_notify_witness:
  "\<not> mRecurReadOnly busyRecurrence \<and> observedRules busyRecurrence = 3
   \<and> notified (addRDate 15 busyRecurrence) = [1, 2]
   \<and> mCachedType (clear busyRecurrence) = rMax
   \<and> notified (setFloats True busyRecurrence) = [1, 2, 1, 2, 1, 2, 1, 2]"
proof -
  have ro: "\<not> mRecurReadOnly busyRecurrence"
    by (simp add: busyRecurrence_def newRecurrence_def)
  have n: "observedRules busyRecurrence = 3"
    by (simp add: observedRules_def busyRecurrence_def newRecurrence_def sampleRule_def)
  have f: "True \<noteq> mFloating busyRecurrence" "notified busyRecurrence = []"
    "liveObservers busyRecurrence = [1, 2]"
    by (simp_all add: busyRecurrence_def newRecurrence_def liveObservers_def)
  note all = mutators_notify [OF ro, of "[]" 15 "[]" nullKDateTime "sampleRule 1 2" True]
  from all have a: "notifiedTimes 1 busyRecurrence (addRDate 15 busyRecurrence)"
    by blast
  from all have b: "notifiedTimes 1 busyRecurrence (clear busyRecurrence)"
    by blast
  from all f(1) have c: "notifiedTimes (3 + 1) busyRecurrence (setFloats True busyRecurrence)"
    unfolding n by blast
  have r4: "concat (replicate (3 + 1) [1, 2::nat]) = [1, 2, 1, 2, 1, 2, 1, 2]"
    by (simp add: numeral_3_eq_3)
  from a b c show ?thesis
    unfolding notifiedTimes_def f r4 using ro n by simp
qed

subsection \<open>The lists stay sorted\<close>


lemma set_eraseRuns: "set (eraseRuns key xs) \<subseteq> set xs"
  by (induction key xs rule: eraseRuns.induct) auto



lemma set_sortUnique: "set (sortUnique key xs) \<subseteq> set xs"
  using set_eraseRuns [of key "sort_key key xs"] by (simp add: sortUnique_def)





lemma sameLists_refl [simp]: "sameLists r r"
  by (simp add: sameLists_def)

lemma sameLists_trans: "sameLists r r1 \<Longrightarrow> sameLists r1 r2 \<Longrightarrow> sameLists r r2"
  by (simp add: sameLists_def)

lemma sameLists_updated [simp]: "sameLists r (updated r1) = sameLists r r1"
  by (simp add: sameLists_def)

lemma sameLists_notify [simp]:
  "sameLists r (ruleNotifies x r1) = sameLists r r1"
  "sameLists r (forRRules f r1) = sameLists r r1"
  "sameLists r (forExRules f r1) = sameLists r r1"
  by (simp_all add: sameLists_def)

lemma sameLists_setFloats [simp]: "sameLists r (setFloats fl r)"
  by (simp add: setFloats_def sameLists_def)

lemma sameLists_setFloats' [simp]: "sameLists r (setFloats fl r1) = sameLists r r1"
  by (simp add: setFloats_def sameLists_def)

lemma sameLists_addRule [simp]: "sameLists r (addRRule x r)" "sameLists r (addExRule x r)"
  by (simp_all add: addRRule_def addExRule_def Let_def sameLists_def split: option.split)

lemma sameLists_onDefaultRRule [simp]: "sameLists r (onDefaultRRule f r1) = sameLists r r1"
  by (simp add: onDefaultRRule_def sameLists_def split: list.split)




















subsection \<open>Times in an interval\<close>

text \<open>
  Claim C3. Every instant that \<^verbatim>\<open>timesInInterval(start, end)\<close> returns should lie in
  \<open>[start, end]\<close>. The code passes the interval to the rules only: it appends all of
  \<open>mRDateTimes\<close> and every promoted date of \<open>mRDates\<close>. For the interval from day 20 to
  day 30 the recurrence without rules returns its inclusion date/time of day 50 and its
  inclusion date 60 (at the start's time of day), both after the end of the interval.
\<close>

theorem timesInInterval_keeps_explicit_times_out_of_range:
  "kdt_lt (mkKDateTime 20 0 UTC) (mkKDateTime 30 0 UTC)
   \<and> timesInInterval dailyEngine explicitRecurrence (mkKDateTime 20 0 UTC) (mkKDateTime 30 0 UTC)
       = [mkKDateTime 50 (mkQTime 9 0 0) UTC, mkKDateTime 60 (mkQTime 10 0 0) UTC]
   \<and> kdt_lt (mkKDateTime 30 0 UTC) (mkKDateTime 50 (mkQTime 9 0 0) UTC)
   \<and> kdt_lt (mkKDateTime 30 0 UTC) (mkKDateTime 60 (mkQTime 10 0 0) UTC)"
  by (simp add: timesInInterval_def explicitRecurrence_def newRecurrence_def Let_def
      startDateTime_def sortUnique_def setDate_def time_def mkKDateTime_def mkQTime_def
      toUtcSecs_def kdt_lt_def)

subsection \<open>Occurrence on a date\<close>





lemma eraseRuns_Nil_iff: "(eraseRuns key xs = []) = (xs = [])"
  by (induction key xs rule: eraseRuns.induct) auto

lemma sortUnique_Nil_iff: "(sortUnique key xs = []) = (xs = [])"
proof -
  have "(sort_key key xs = []) = (xs = [])"
    by (metis length_sort length_0_conv)
  then show ?thesis by (simp add: sortUnique_def eraseRuns_Nil_iff)
qed








subsection \<open>Next and previous occurrence\<close>

lemma searchRounds_None_iff:
  "(searchRounds cand ok n t = None)
     = ((\<exists>k<n. \<exists>t'. rejectedRounds cand ok k t = Some t' \<and> cand t' = None)
        \<or> rejectedRounds cand ok n t \<noteq> None)"
proof (induction n arbitrary: t)
  case 0
  show ?case by simp
next
  case (Suc n)
  show ?case
  proof (cases "cand t")
    case None
    have "rejectedRounds cand ok 0 t = Some t \<and> cand t = None"
      using None by simp
    then have "\<exists>k<Suc n. \<exists>t'. rejectedRounds cand ok k t = Some t' \<and> cand t' = None"
      by blast
    with None show ?thesis by simp
  next
    case (Some c)
    have split: "\<And>Q. (\<exists>k<Suc n. Q k) = (Q 0 \<or> (\<exists>j<n. Q (Suc j)))"
      by (auto simp: less_Suc_eq_0_disj)
    show ?thesis
    proof (cases "ok c")
      case True
      with Some show ?thesis by (simp add: split)
    next
      case False
      with Some Suc.IH [of c] show ?thesis by (simp add: split)
    qed
  qed
qed

lemma searchRounds_Some:
  assumes step: "\<And>t c. cand t = Some c \<Longrightarrow> R t c"
    and trans: "\<And>a b c. R a b \<Longrightarrow> R b c \<Longrightarrow> R a c"
  shows "searchRounds cand ok n t = Some x \<Longrightarrow> R t x \<and> ok x"
proof (induction n arbitrary: t)
  case 0
  then show ?case by simp
next
  case (Suc n)
  from Suc.prems obtain c where c: "cand t = Some c"
    by (cases "cand t") simp_all
  show ?case
  proof (cases "ok c")
    case True
    with c Suc.prems step [OF c] show ?thesis by simp
  next
    case False
    with c Suc.prems have "searchRounds cand ok n c = Some x" by simp
    from Suc.IH [OF this] step [OF c] show ?thesis
      using trans by blast
  qed
qed

lemma getNextDateTime_loop_eq:
  "loop \<le> 1000 \<Longrightarrow>
   getNextDateTime_loop eng r loop t
     = searchRounds (nextCandidate eng r) (notExcluded eng r) (1000 - loop) t"
proof (induction eng r loop t rule: getNextDateTime_loop.induct)
  case (1 eng r loop nextDT)
  show ?case
  proof (cases "loop < 1000")
    case False
    with "1.prems" have "loop = 1000" by simp
    then show ?thesis by (simp add: getNextDateTime_loop.simps)
  next
    case True
    then obtain m where m: "1000 - loop = Suc m" "1000 - Suc loop = m"
      by (cases "1000 - loop") simp_all
    show ?thesis
    proof (cases "nextDates eng r nextDT")
      case Nil
      with True m show ?thesis
        by (simp add: getNextDateTime_loop.simps [of eng r loop nextDT] nextCandidate_def)
    next
      case (Cons dt dts)
      show ?thesis
      proof (cases "notExcluded eng r dt")
        case ok: True
        with True m Cons show ?thesis
          by (simp add: getNextDateTime_loop.simps [of eng r loop nextDT] nextCandidate_def)
      next
        case no: False
        from True have "Suc loop \<le> 1000" by simp
        from "1.IH" [OF True Cons no this] True m Cons no show ?thesis
          by (simp add: getNextDateTime_loop.simps [of eng r loop nextDT] nextCandidate_def)
      qed
    qed
  qed
qed

lemma getPreviousDateTime_loop_eq:
  "loop \<le> 1000 \<Longrightarrow>
   getPreviousDateTime_loop eng r loop t
     = searchRounds (prevCandidate eng r) (notExcluded eng r) (1000 - loop) t"
proof (induction eng r loop t rule: getPreviousDateTime_loop.induct)
  case (1 eng r loop prevDT)
  show ?case
  proof (cases "loop < 1000")
    case False
    with "1.prems" have "loop = 1000" by simp
    then show ?thesis by (simp add: getPreviousDateTime_loop.simps)
  next
    case True
    then obtain m where m: "1000 - loop = Suc m" "1000 - Suc loop = m"
      by (cases "1000 - loop") simp_all
    show ?thesis
    proof (cases "prevDates eng r prevDT")
      case Nil
      with True m show ?thesis
        by (simp add: getPreviousDateTime_loop.simps [of eng r loop prevDT] prevCandidate_def)
    next
      case (Cons dt dts)
      show ?thesis
      proof (cases "notExcluded eng r (last (dt # dts))")
        case ok: True
        with True m Cons show ?thesis
          by (simp add: getPreviousDateTime_loop.simps [of eng r loop prevDT] prevCandidate_def)
      next
        case no: False
        from True have "Suc loop \<le> 1000" by simp
        from "1.IH" [OF True Cons no this] True m Cons no show ?thesis
          by (simp add: getPreviousDateTime_loop.simps [of eng r loop prevDT] prevCandidate_def)
      qed
    qed
  qed
qed


lemma findFirst_found:
  "0 \<le> findFirst P xs i \<Longrightarrow>
   i \<le> nat (findFirst P xs i) \<and> nat (findFirst P xs i) - i < length xs
   \<and> P (xs ! (nat (findFirst P xs i) - i))"
proof (induction xs arbitrary: i)
  case Nil
  then show ?case by simp
next
  case (Cons x xs)
  show ?case
  proof (cases "P x")
    case True
    then show ?thesis by simp
  next
    case False
    with Cons.prems have nn: "0 \<le> findFirst P xs (Suc i)" by simp
    from Cons.IH [OF nn] obtain d where d: "nat (findFirst P xs (Suc i)) - i = Suc d"
      "nat (findFirst P xs (Suc i)) - Suc i = d"
      by (cases "nat (findFirst P xs (Suc i)) - i") auto
    from Cons.IH [OF nn] False d show ?thesis by simp
  qed
qed

lemma findFirst_none: "\<not> 0 \<le> findFirst P xs i \<Longrightarrow> \<forall>x\<in>set xs. \<not> P x"
  by (induction xs arbitrary: i) (auto split: if_splits)

lemma findLast_found:
  "0 \<le> findLast P xs i \<Longrightarrow>
   i \<le> nat (findLast P xs i) \<and> nat (findLast P xs i) - i < length xs
   \<and> P (xs ! (nat (findLast P xs i) - i))"
proof (induction xs arbitrary: i)
  case Nil
  then show ?case by simp
next
  case (Cons x xs)
  show ?case
  proof (cases "0 \<le> findLast P xs (Suc i)")
    case nn: True
    from Cons.IH [OF nn] obtain d where d: "nat (findLast P xs (Suc i)) - i = Suc d"
      "nat (findLast P xs (Suc i)) - Suc i = d"
      by (cases "nat (findLast P xs (Suc i)) - i") auto
    from Cons.IH [OF nn] nn d show ?thesis by (simp add: Let_def)
  next
    case False
    with Cons.prems show ?thesis by (simp add: Let_def split: if_splits)
  qed
qed

lemma findLast_none: "\<not> 0 \<le> findLast P xs i \<Longrightarrow> \<forall>x\<in>set xs. \<not> P x"
  by (induction xs arbitrary: i) (auto simp: Let_def split: if_splits)

lemma findGT_cases:
  "(0 \<le> findGT key v xs \<and> xs ! nat (findGT key v xs) \<in> set xs
      \<and> key v < key (xs ! nat (findGT key v xs)))
   \<or> (\<not> 0 \<le> findGT key v xs \<and> (\<forall>x\<in>set xs. \<not> key v < key x))"
proof (cases "0 \<le> findGT key v xs")
  case True
  with findFirst_found [of "\<lambda>x. key v < key x" xs 0] show ?thesis
    by (simp add: findGT_def)
next
  case False
  with findFirst_none [of "\<lambda>x. key v < key x" xs 0] show ?thesis
    by (simp add: findGT_def)
qed

lemma findLT_cases:
  "(0 \<le> findLT key v xs \<and> xs ! nat (findLT key v xs) \<in> set xs
      \<and> key (xs ! nat (findLT key v xs)) < key v)
   \<or> (\<not> 0 \<le> findLT key v xs \<and> (\<forall>x\<in>set xs. \<not> key x < key v))"
proof (cases "0 \<le> findLT key v xs")
  case True
  with findLast_found [of "\<lambda>x. key x < key v" xs 0] show ?thesis
    by (simp add: findLT_def)
next
  case False
  with findLast_none [of "\<lambda>x. key x < key v" xs 0] show ?thesis
    by (simp add: findLT_def)
qed

lemma time_setDate [simp]: "time (setDate k qd) = time k"
  by (simp add: setDate_def time_def)

lemma setDate_setDate [simp]: "setDate (setDate k a) b = setDate k b"
  by (simp add: setDate_def time_def)

lemma promoteDates_map: "promoteDates kdt qds = map (setDate kdt) qds"
proof (induction qds arbitrary: kdt)
  case Nil
  show ?case by simp
next
  case (Cons qd qds)
  show ?case by (simp add: Let_def Cons.IH)
qed

lemma firstRDateAfter_set:
  "set (firstRDateAfter kdt qds t) \<subseteq> {x. kdt_lt t x}"
  by (induction qds arbitrary: kdt) (auto simp: Let_def)

lemma firstRDateAfter_Nil_iff:
  "(firstRDateAfter kdt qds t = []) = (\<forall>qd\<in>set qds. \<not> kdt_lt t (setDate kdt qd))"
  by (induction qds arbitrary: kdt) (auto simp: Let_def)

lemma lastRDateBefore_set:
  "set (lastRDateBefore kdt qds t) \<subseteq> {x. kdt_lt x t}"
  by (induction qds arbitrary: kdt) (auto simp: Let_def)

lemma lastRDateBefore_Nil_iff:
  "(lastRDateBefore kdt qds t = []) = (\<forall>qd\<in>set qds. \<not> kdt_lt (setDate kdt qd) t)"
  by (induction qds arbitrary: kdt) (auto simp: Let_def)

lemma foldl_allowed:
  "foldl (\<lambda>allowed x. allowed \<and> \<not> P x) b xs = (b \<and> (\<forall>x\<in>set xs. \<not> P x))"
  by (induction xs arbitrary: b) auto

lemma notExcluded_iff:
  "notExcluded eng r x
     = (date x \<notin> set (mExDates r) \<and> (\<forall>e\<in>set (mExDateTimes r). \<not> kdt_eq e x)
        \<and> (\<forall>rule\<in>set (mExRules r). \<not> rule_recursAt eng rule x))"
  by (auto simp: notExcluded_def containsSorted_def list_ex_iff foldl_allowed kdt_eq_def)


lemma ruleDates_set:
  "set (concat (map (\<lambda>x. case f x of None \<Rightarrow> [] | Some dt \<Rightarrow> [dt]) rules))
     = {y. \<exists>rule\<in>set rules. f rule = Some y}"
  by (induction rules) (auto split: option.splits)

lemma ruleDates_Nil_iff:
  "(concat (map (\<lambda>x. case f x of None \<Rightarrow> [] | Some dt \<Rightarrow> [dt]) rules) = [])
     = (\<forall>rule\<in>set rules. f rule = None)"
  by (induction rules) (auto split: option.splits)

lemma nextDates_after:
  assumes "\<forall>rule\<in>set (mRRules r). \<forall>t y. rule_getNextDate eng rule t = Some y \<longrightarrow> kdt_lt t y"
    and "c \<in> set (nextDates eng r t)"
  shows "kdt_lt t c"
proof -
  let ?i = "findGT toUtcSecs t (mRDateTimes r)"
  let ?dates3 =
    "(if kdt_lt t (startDateTime r) then [startDateTime r] else [])
     @ (if 0 \<le> ?i then [mRDateTimes r ! nat ?i] else [])
     @ firstRDateAfter (startDateTime r) (mRDates r) t
     @ concat (map (\<lambda>x. case rule_getNextDate eng x t of None \<Rightarrow> [] | Some dt \<Rightarrow> [dt]) (mRRules r))"
  have "nextDates eng r t = sortUnique toUtcSecs ?dates3"
    by (simp add: nextDates_def Let_def)
  with assms(2) set_sortUnique [of toUtcSecs ?dates3] have "c \<in> set ?dates3"
    by auto
  then consider "kdt_lt t (startDateTime r) \<and> c = startDateTime r"
    | "0 \<le> ?i \<and> c = mRDateTimes r ! nat ?i"
    | "c \<in> set (firstRDateAfter (startDateTime r) (mRDates r) t)"
    | "\<exists>rule\<in>set (mRRules r). rule_getNextDate eng rule t = Some c"
    unfolding set_append Un_iff ruleDates_set by (auto split: if_splits)
  then show ?thesis
  proof cases
    case 1
    then show ?thesis by simp
  next
    case 2
    with findGT_cases [of toUtcSecs t "mRDateTimes r"] show ?thesis
      by (auto simp: kdt_lt_def)
  next
    case 3
    with firstRDateAfter_set [of "startDateTime r" "mRDates r" t] show ?thesis by auto
  next
    case 4
    with assms(1) show ?thesis by blast
  qed
qed

lemma nextDates_Nil_iff:
  "(nextDates eng r t = [])
     = (\<not> kdt_lt t (mStartDateTime r)
        \<and> (\<forall>x\<in>set (mRDateTimes r). \<not> kdt_lt t x)
        \<and> (\<forall>qd\<in>set (mRDates r). \<not> kdt_lt t (setDate (mStartDateTime r) qd))
        \<and> (\<forall>rule\<in>set (mRRules r). rule_getNextDate eng rule t = None))"
  using findGT_cases [of toUtcSecs t "mRDateTimes r"]
  by (auto simp: nextDates_def Let_def sortUnique_Nil_iff firstRDateAfter_Nil_iff
      startDateTime_def kdt_lt_def split: option.splits)

lemma prevDates_before:
  assumes "\<forall>rule\<in>set (mRRules r). \<forall>t y. rule_getPreviousDate eng rule t = Some y \<longrightarrow> kdt_lt y t"
    and "c \<in> set (prevDates eng r t)"
  shows "kdt_lt c t"
proof -
  let ?i = "findLT toUtcSecs t (mRDateTimes r)"
  let ?dates3 =
    "(if kdt_lt (startDateTime r) t then [startDateTime r] else [])
     @ (if 0 \<le> ?i then [mRDateTimes r ! nat ?i] else [])
     @ lastRDateBefore (startDateTime r) (rev (mRDates r)) t
     @ concat (map (\<lambda>x. case rule_getPreviousDate eng x t of None \<Rightarrow> [] | Some dt \<Rightarrow> [dt])
                (mRRules r))"
  have "prevDates eng r t = sortUnique toUtcSecs ?dates3"
    by (simp add: prevDates_def Let_def)
  with assms(2) set_sortUnique [of toUtcSecs ?dates3] have "c \<in> set ?dates3"
    by auto
  then consider "kdt_lt (startDateTime r) t \<and> c = startDateTime r"
    | "0 \<le> ?i \<and> c = mRDateTimes r ! nat ?i"
    | "c \<in> set (lastRDateBefore (startDateTime r) (rev (mRDates r)) t)"
    | "\<exists>rule\<in>set (mRRules r). rule_getPreviousDate eng rule t = Some c"
    unfolding set_append Un_iff ruleDates_set by (auto split: if_splits)
  then show ?thesis
  proof cases
    case 1
    then show ?thesis by simp
  next
    case 2
    with findLT_cases [of toUtcSecs t "mRDateTimes r"] show ?thesis
      by (auto simp: kdt_lt_def)
  next
    case 3
    with lastRDateBefore_set [of "startDateTime r" "rev (mRDates r)" t] show ?thesis by auto
  next
    case 4
    with assms(1) show ?thesis by blast
  qed
qed

lemma prevDates_Nil_iff:
  "(prevDates eng r t = [])
     = (\<not> kdt_lt (mStartDateTime r) t
        \<and> (\<forall>x\<in>set (mRDateTimes r). \<not> kdt_lt x t)
        \<and> (\<forall>qd\<in>set (mRDates r). \<not> kdt_lt (setDate (mStartDateTime r) qd) t)
        \<and> (\<forall>rule\<in>set (mRRules r). rule_getPreviousDate eng rule t = None))"
  using findLT_cases [of toUtcSecs t "mRDateTimes r"]
  by (auto simp: prevDates_def Let_def sortUnique_Nil_iff lastRDateBefore_Nil_iff
      startDateTime_def kdt_lt_def split: option.splits)

lemma nextCandidate_props:
  "(nextCandidate eng r t = None) = (nextDates eng r t = [])"
  "nextCandidate eng r t = Some c \<Longrightarrow> c \<in> set (nextDates eng r t)"
  by (auto simp: nextCandidate_def split: list.splits)

lemma prevCandidate_props:
  "(prevCandidate eng r t = None) = (prevDates eng r t = [])"
  "prevCandidate eng r t = Some c \<Longrightarrow> c \<in> set (prevDates eng r t)"
  by (auto simp: prevCandidate_def split: list.splits)

lemma kdt_lt_trans: "kdt_lt a b \<Longrightarrow> kdt_lt b c \<Longrightarrow> kdt_lt a c"
  by (simp add: kdt_lt_def)

lemma excluded_nextDates:
  "nextDates dailyEngine excludedRecurrence (mkKDateTime 55 0 UTC)
     = [mkKDateTime 60 (mkQTime 10 0 0) UTC]"
  "nextDates dailyEngine excludedRecurrence (mkKDateTime 60 (mkQTime 10 0 0) UTC) = []"
  "\<not> notExcluded dailyEngine excludedRecurrence (mkKDateTime 60 (mkQTime 10 0 0) UTC)"
  by (simp_all add: nextDates_def Let_def findGT_def sortUnique_def excludedRecurrence_def
      explicitRecurrence_def newRecurrence_def startDateTime_def setDate_def time_def
      toUtcSecs_def kdt_lt_def mkKDateTime_def mkQTime_def notExcluded_def containsSorted_def
      date_def)

text \<open>
  Claim C4, as stated: \<^verbatim>\<open>getNextDateTime(after)\<close> returns none exactly when no candidate
  after \<open>after\<close> exists or 1000 rounds reject their candidate. After day 55 the
  recurrence without rules has one candidate, its inclusion date 60 at 10:00; the first
  round rejects it, since 60 is an exclusion date, and the second round, which searches
  from the rejected candidate, finds none: none is returned, although a candidate after
  \<open>after\<close> exists and a single round has rejected one.
\<close>

theorem getNextDateTime_counterexample:
  "getNextDateTime dailyEngine excludedRecurrence (mkKDateTime 55 0 UTC) = None
   \<and> nextDates dailyEngine excludedRecurrence (mkKDateTime 55 0 UTC)
       = [mkKDateTime 60 (mkQTime 10 0 0) UTC]
   \<and> kdt_lt (mkKDateTime 55 0 UTC) (mkKDateTime 60 (mkQTime 10 0 0) UTC)
   \<and> \<not> notExcluded dailyEngine excludedRecurrence (mkKDateTime 60 (mkQTime 10 0 0) UTC)
   \<and> nextDates dailyEngine excludedRecurrence (mkKDateTime 60 (mkQTime 10 0 0) UTC) = []"
  by (simp add: getNextDateTime_def getNextDateTime_loop.simps [of _ _ 0]
      getNextDateTime_loop.simps [of _ _ "Suc 0"] excluded_nextDates)
    (simp add: kdt_lt_def toUtcSecs_def mkKDateTime_def mkQTime_def)

text \<open>
  Claim C4, amended. Let every inclusion rule answer \<^verbatim>\<open>getNextDate(t)\<close> with an instant
  after \<open>t\<close> and \<^verbatim>\<open>getPreviousDate(t)\<close> with an instant before \<open>t\<close>, when it answers at
  all. \<^verbatim>\<open>getNextDateTime(after)\<close> returns none exactly when fewer than 1000 rounds in a
  row each found a candidate and rejected it and the next round, which searches from the
  last rejected candidate (from \<open>after\<close> when there was no round yet), finds no
  candidate, or when 1000 rounds in a row each found a candidate and rejected it. A round
  that searches from \<open>t\<close> finds no candidate exactly when the start date/time, every
  inclusion date/time and every promoted inclusion date is not after \<open>t\<close> and no rule
  has a next date. An instant that is returned is after \<open>after\<close> and is excluded by no
  exclusion date, no exclusion date/time and no exclusion rule.
  \<^verbatim>\<open>getPreviousDateTime(before)\<close> is the mirror image, with "before" for "after".
\<close>

theorem next_and_previous_occurrence:
  assumes nextAfter:
      "\<forall>rule\<in>set (mRRules r). \<forall>t y. rule_getNextDate eng rule t = Some y \<longrightarrow> kdt_lt t y"
    and prevBefore:
      "\<forall>rule\<in>set (mRRules r). \<forall>t y. rule_getPreviousDate eng rule t = Some y \<longrightarrow> kdt_lt y t"
  shows
    "((getNextDateTime eng r after = None)
        = ((\<exists>n<1000. \<exists>t. rejectedRounds (nextCandidate eng r) (notExcluded eng r) n after = Some t
                          \<and> nextCandidate eng r t = None)
           \<or> rejectedRounds (nextCandidate eng r) (notExcluded eng r) 1000 after \<noteq> None))
     \<and> (\<forall>t. (nextCandidate eng r t = None)
              = (\<not> kdt_lt t (mStartDateTime r)
                 \<and> (\<forall>x\<in>set (mRDateTimes r). \<not> kdt_lt t x)
                 \<and> (\<forall>qd\<in>set (mRDates r). \<not> kdt_lt t (setDate (mStartDateTime r) qd))
                 \<and> (\<forall>rule\<in>set (mRRules r). rule_getNextDate eng rule t = None)))
     \<and> (\<forall>x. getNextDateTime eng r after = Some x \<longrightarrow>
              kdt_lt after x \<and> date x \<notin> set (mExDates r)
              \<and> (\<forall>e\<in>set (mExDateTimes r). \<not> kdt_eq e x)
              \<and> (\<forall>rule\<in>set (mExRules r). \<not> rule_recursAt eng rule x))
     \<and> ((getPreviousDateTime eng r before = None)
        = ((\<exists>n<1000. \<exists>t. rejectedRounds (prevCandidate eng r) (notExcluded eng r) n before = Some t
                          \<and> prevCandidate eng r t = None)
           \<or> rejectedRounds (prevCandidate eng r) (notExcluded eng r) 1000 before \<noteq> None))
     \<and> (\<forall>t. (prevCandidate eng r t = None)
              = (\<not> kdt_lt (mStartDateTime r) t
                 \<and> (\<forall>x\<in>set (mRDateTimes r). \<not> kdt_lt x t)
                 \<and> (\<forall>qd\<in>set (mRDates r). \<not> kdt_lt (setDate (mStartDateTime r) qd) t)
                 \<and> (\<forall>rule\<in>set (mRRules r). rule_getPreviousDate eng rule t = None)))
     \<and> (\<forall>x. getPreviousDateTime eng r before = Some x \<longrightarrow>
              kdt_lt x before \<and> date x \<notin> set (mExDates r)
              \<and> (\<forall>e\<in>set (mExDateTimes r). \<not> kdt_eq e x)
              \<and> (\<forall>rule\<in>set (mExRules r). \<not> rule_recursAt eng rule x))"
proof -
  have nx: "getNextDateTime eng r after
              = searchRounds (nextCandidate eng r) (notExcluded eng r) 1000 after"
    using getNextDateTime_loop_eq [of 0 eng r after] by (simp add: getNextDateTime_def)
  have pv: "getPreviousDateTime eng r before
              = searchRounds (prevCandidate eng r) (notExcluded eng r) 1000 before"
    using getPreviousDateTime_loop_eq [of 0 eng r before] by (simp add: getPreviousDateTime_def)
  have a: "(getNextDateTime eng r after = None)
        = ((\<exists>n<1000. \<exists>t. rejectedRounds (nextCandidate eng r) (notExcluded eng r) n after = Some t
                          \<and> nextCandidate eng r t = None)
           \<or> rejectedRounds (nextCandidate eng r) (notExcluded eng r) 1000 after \<noteq> None)"
    unfolding nx by (rule searchRounds_None_iff)
  have b: "\<forall>t. (nextCandidate eng r t = None)
              = (\<not> kdt_lt t (mStartDateTime r)
                 \<and> (\<forall>x\<in>set (mRDateTimes r). \<not> kdt_lt t x)
                 \<and> (\<forall>qd\<in>set (mRDates r). \<not> kdt_lt t (setDate (mStartDateTime r) qd))
                 \<and> (\<forall>rule\<in>set (mRRules r). rule_getNextDate eng rule t = None))"
    by (simp only: nextCandidate_props(1) nextDates_Nil_iff) simp
  have c: "\<forall>x. getNextDateTime eng r after = Some x \<longrightarrow>
              kdt_lt after x \<and> date x \<notin> set (mExDates r)
              \<and> (\<forall>e\<in>set (mExDateTimes r). \<not> kdt_eq e x)
              \<and> (\<forall>rule\<in>set (mExRules r). \<not> rule_recursAt eng rule x)"
  proof (intro allI impI)
    fix x assume "getNextDateTime eng r after = Some x"
    then have "searchRounds (nextCandidate eng r) (notExcluded eng r) 1000 after = Some x"
      by (simp only: nx)
    then have "kdt_lt after x \<and> notExcluded eng r x"
    proof (rule searchRounds_Some [rotated 2])
      fix t c assume "nextCandidate eng r t = Some c"
      then show "kdt_lt t c"
        using nextDates_after [OF nextAfter] nextCandidate_props(2) by blast
    qed (rule kdt_lt_trans)
    then show "kdt_lt after x \<and> date x \<notin> set (mExDates r)
              \<and> (\<forall>e\<in>set (mExDateTimes r). \<not> kdt_eq e x)
              \<and> (\<forall>rule\<in>set (mExRules r). \<not> rule_recursAt eng rule x)"
      by (simp add: notExcluded_iff)
  qed
  have d: "(getPreviousDateTime eng r before = None)
        = ((\<exists>n<1000. \<exists>t. rejectedRounds (prevCandidate eng r) (notExcluded eng r) n before = Some t
                          \<and> prevCandidate eng r t = None)
           \<or> rejectedRounds (prevCandidate eng r) (notExcluded eng r) 1000 before \<noteq> None)"
    unfolding pv by (rule searchRounds_None_iff)
  have e: "\<forall>t. (prevCandidate eng r t = None)
              = (\<not> kdt_lt (mStartDateTime r) t
                 \<and> (\<forall>x\<in>set (mRDateTimes r). \<not> kdt_lt x t)
                 \<and> (\<forall>qd\<in>set (mRDates r). \<not> kdt_lt (setDate (mStartDateTime r) qd) t)
                 \<and> (\<forall>rule\<in>set (mRRules r). rule_getPreviousDate eng rule t = None))"
    by (simp only: prevCandidate_props(1) prevDates_Nil_iff) simp
  have f: "\<forall>x. getPreviousDateTime eng r before = Some x \<longrightarrow>
              kdt_lt x before \<and> date x \<notin> set (mExDates r)
              \<and> (\<forall>e\<in>set (mExDateTimes r). \<not> kdt_eq e x)
              \<and> (\<forall>rule\<in>set (mExRules r). \<not> rule_recursAt eng rule x)"
  proof (intro allI impI)
    fix x assume "getPreviousDateTime eng r before = Some x"
    then have "searchRounds (prevCandidate eng r) (notExcluded eng r) 1000 before = Some x"
      by (simp only: pv)
    then have "kdt_lt x before \<and> notExcluded eng r x"
    proof (rule searchRounds_Some [where R = "\<lambda>a b. kdt_lt b a", rotated 2])
      fix t c assume "prevCandidate eng r t = Some c"
      then show "kdt_lt c t"
        using prevDates_before [OF prevBefore] prevCandidate_props(2) by blast
    next
      fix a b c assume "kdt_lt b a" "kdt_lt c b"
      then show "kdt_lt c a" by (simp add: kdt_lt_def)
    qed
    then show "kdt_lt x before \<and> date x \<notin> set (mExDates r)
              \<and> (\<forall>e\<in>set (mExDateTimes r). \<not> kdt_eq e x)
              \<and> (\<forall>rule\<in>set (mExRules r). \<not> rule_recursAt eng rule x)"
      by (simp add: notExcluded_iff)
  qed
  from a b c d e f show ?thesis by (intro conjI)
qed


text \<open>The sample engine keeps the contract of the rules, and two searches evaluated.\<close>

lemma day_after: "(d::int) < (d div 86400 + 1) * 86400"
proof -
  have m: "d mod 86400 < 86400" by simp
  have e: "d = (d div 86400) * 86400 + d mod 86400" by simp
  have x: "(d div 86400 + 1) * 86400 = d div 86400 * 86400 + 86400" by (simp add: distrib_right)
  from m e show ?thesis unfolding x by linarith
qed

lemma day_before: "(((d::int) - 1) div 86400) * 86400 \<le> d - 1"
proof -
  have m: "0 \<le> (d - 1) mod 86400" by simp
  have e: "d - 1 = ((d - 1) div 86400) * 86400 + (d - 1) mod 86400" by simp
  from m e show ?thesis by linarith
qed

lemma dailyEngine_next_after:
  "rule_getNextDate dailyEngine rule t = Some y \<Longrightarrow> kdt_lt t y"
  using day_after [of "sinceStart rule t"]
  by (auto simp: dailyEngine_def kdt_lt_def sinceStart_def dailyOccurrence_def toUtcSecs_def
      split: if_splits)

lemma dailyEngine_previous_before:
  "rule_getPreviousDate dailyEngine rule t = Some y \<Longrightarrow> kdt_lt y t"
  using day_before [of "sinceStart rule t"]
  by (auto simp: dailyEngine_def kdt_lt_def sinceStart_def dailyOccurrence_def toUtcSecs_def
      split: if_splits)

lemma sample_nextDates: "nextDates dailyEngine busyRecurrence (mkKDateTime 11 0 UTC)
   = [mkKDateTime 11 (mkQTime 9 0 0) UTC, mkKDateTime 11 (mkQTime 10 0 0) UTC,
      mkKDateTime 13 (mkQTime 10 0 0) UTC]"
    by (simp add: nextDates_def Let_def
        findGT_def sortUnique_def busyRecurrence_def
        newRecurrence_def startDateTime_def dailyEngine_def sampleRule_def sinceStart_def
        dailyOccurrence_def setDate_def time_def toUtcSecs_def kdt_lt_def
        mkKDateTime_def mkQTime_def)

lemma sample_first_allowed: "notExcluded dailyEngine busyRecurrence (mkKDateTime 11 (mkQTime 9 0 0) UTC)"
    by (simp add: notExcluded_def containsSorted_def busyRecurrence_def
        newRecurrence_def dailyEngine_def sampleRule_def sinceStart_def
        date_def toUtcSecs_def mkKDateTime_def mkQTime_def)

lemma sample_next: "getNextDateTime dailyEngine busyRecurrence (mkKDateTime 11 0 UTC)
       = Some (mkKDateTime 11 (mkQTime 9 0 0) UTC)"
  by (simp add: getNextDateTime_def getNextDateTime_loop.simps [of _ _ 0] sample_nextDates sample_first_allowed)


lemma sample_prevDates: "prevDates dailyEngine busyRecurrence (mkKDateTime 11 0 UTC)
   = [mkKDateTime 10 (mkQTime 10 0 0) UTC]"
    by (simp add: prevDates_def Let_def
        findLT_def sortUnique_def busyRecurrence_def
        newRecurrence_def startDateTime_def dailyEngine_def sampleRule_def sinceStart_def
        dailyOccurrence_def setDate_def time_def toUtcSecs_def kdt_lt_def
        mkKDateTime_def mkQTime_def)

lemma sample_start_excluded: "\<not> notExcluded dailyEngine busyRecurrence (mkKDateTime 10 (mkQTime 10 0 0) UTC)"
    by (simp add: notExcluded_def containsSorted_def busyRecurrence_def
        newRecurrence_def dailyEngine_def sampleRule_def sinceStart_def
        date_def toUtcSecs_def mkKDateTime_def mkQTime_def)

lemma sample_prevDates_none: "prevDates dailyEngine busyRecurrence (mkKDateTime 10 (mkQTime 10 0 0) UTC) = []"
    by (simp add: prevDates_def Let_def
        findLT_def sortUnique_def busyRecurrence_def
        newRecurrence_def startDateTime_def dailyEngine_def sampleRule_def sinceStart_def
        dailyOccurrence_def setDate_def time_def toUtcSecs_def kdt_lt_def
        mkKDateTime_def mkQTime_def)

lemma sample_previous: "getPreviousDateTime dailyEngine busyRecurrence (mkKDateTime 11 0 UTC) = None"
  by (simp add: getPreviousDateTime_def getPreviousDateTime_loop.simps [of _ _ 0]
      getPreviousDateTime_loop.simps [of _ _ "Suc 0"] sample_prevDates sample_prevDates_none sample_start_excluded)

theorem next_and_previous_occurrence_witness:
  "getNextDateTime dailyEngine busyRecurrence (mkKDateTime 11 0 UTC)
       = Some (mkKDateTime 11 (mkQTime 9 0 0) UTC)
   \<and> kdt_lt (mkKDateTime 11 0 UTC) (mkKDateTime 11 (mkQTime 9 0 0) UTC)
   \<and> getPreviousDateTime dailyEngine busyRecurrence (mkKDateTime 11 0 UTC) = None"
proof -
  have h1: "\<forall>rule\<in>set (mRRules busyRecurrence).
      \<forall>t y. rule_getNextDate dailyEngine rule t = Some y \<longrightarrow> kdt_lt t y"
    using dailyEngine_next_after by blast
  have h2: "\<forall>rule\<in>set (mRRules busyRecurrence).
      \<forall>t y. rule_getPreviousDate dailyEngine rule t = Some y \<longrightarrow> kdt_lt y t"
    using dailyEngine_previous_before by blast
  from next_and_previous_occurrence [OF h1 h2, of "mkKDateTime 11 0 UTC" "mkKDateTime 11 0 UTC"]
    sample_next
  have "kdt_lt (mkKDateTime 11 0 UTC) (mkKDateTime 11 (mkQTime 9 0 0) UTC)"
    by blast
  with sample_next sample_previous show ?thesis by blast
qed

end
